theory Spec2Isabelle
  imports Complex_Main "HOL-Library.Word"
begin

section \<open>The platform-agnostic audio core of \<^verbatim>\<open>quantum/audio/audio.c\<close>\<close>

text \<open>
  The file keeps its whole state in global variables and talks to three collaborators:
  the hardware driver (\<^verbatim>\<open>audio_driver_initialize/start/stop\<close>), the persisted
  configuration and the voice effects of \<^verbatim>\<open>voices.c\<close>. The model passes the globals
  around as one record and records every call to the driver, and every tone request and
  release, in a log kept in that record.

  Conventions of the embedding:
  \<^item> \<^verbatim>\<open>uint8_t\<close>, \<^verbatim>\<open>uint16_t\<close> and \<^verbatim>\<open>uint32_t\<close> are words of that width, so
    \<open>+\<close> and \<open>-\<close> wrap; where C promotes to \<^verbatim>\<open>int\<close> before comparing or subtracting,
    the model compares or subtracts \<open>uint\<close> values.
  \<^item> \<^verbatim>\<open>float\<close> is modelled by \<open>real\<close>: exact arithmetic, no rounding, no NaN, no
    infinities, and \<open>-0 = 0\<close>. The concrete evaluations below only use values that a
    binary32 float holds exactly, or differ from the compared value by far more than
    a rounding error. The general statement about the time a melody takes assumes,
    through \<open>binary32_exact\<close> and \<open>whole_length\<close>, that every float of the playback is
    held exactly; the statements about the tone stack hold whatever the lengths and
    positions are.
  \<^item> A division by a zero tempo is infinite in C and \<open>0\<close> in HOL; the tempo functions
    keep the tempo at 10 or above.
  \<^item> Array reads use \<open>!\<close>, which says nothing outside the array, as C does not. The
    invariant \<open>audio_inv\<close> below keeps every access to \<^verbatim>\<open>frequencies\<close> inside its
    eight slots.
\<close>

subsection \<open>Data\<close>

text \<open>A \<^verbatim>\<open>float [2]\<close> entry of a SONG: frequency and duration.\<close>

type_synonym musical_note = "real \<times> real"

text \<open>
  What \<^verbatim>\<open>notes_pointer\<close> can point at: nothing yet, the global \<^verbatim>\<open>click\<close> array (which
  \<^verbatim>\<open>audio_play_click\<close> overwrites), or an array owned by the caller.
\<close>

datatype melody_ref = Null | Click | Song "musical_note list"

datatype call =
    Driver_Initialize
  | Driver_Start
  | Driver_Stop
  | Play_Tone real
  | Stop_Tone real

text \<open>
  What the file takes from headers and other modules that are not part of it: macros,
  the start-up song, the stored configuration, the clock and the flags of \<^verbatim>\<open>voices.c\<close>.
  \<open>eeprom_enable\<close> is \<open>None\<close> on a build without EEPROM support (the \<^verbatim>\<open>#else\<close> branch of
  \<^verbatim>\<open>audio_init\<close>) and otherwise holds the stored \<^verbatim>\<open>enable\<close> bit.
\<close>

record platform =
  TEMPO_DEFAULT :: "8 word"
  startup_song :: "musical_note list"
  eeprom_enable :: "bool option"
  AUDIO_ENABLE_TONE_MULTIPLEXING :: bool
  AUDIO_MAX_SIMULTANEOUS_TONES :: int
  AUDIO_TONE_MULTIPLEXING_RATE_DEFAULT :: real
  vibrato :: bool
  glissando :: bool
  timer_read :: "16 word"

record audio =
  active_tones :: "8 word"
  frequencies :: "real list"
  playing_melody :: bool
  playing_note :: bool
  state_changed :: bool
  notes_pointer :: melody_ref
  notes_count :: "16 word"
  notes_repeat :: bool
  note_length :: real
  note_tempo :: "8 word"
  current_note :: "16 word"
  note_position :: "32 word"
  note_resting :: bool
  tone_multiplexing_rate :: real
  tone_multiplexing_index_shift :: "8 word"
  voices_timer :: "16 word"
  click :: "musical_note list"
  audio_initialized :: bool
  audio_config_enable :: bool
  calls :: "call list"

definition AUDIO_TONE_STACKSIZE :: nat where
  "AUDIO_TONE_STACKSIZE = 8"

text \<open>
  The globals as C initialises them: \<^verbatim>\<open>frequencies[] = {-1.0}\<close> sets the first slot
  only, the other seven are zero, and the zero-initialised configuration has audio
  disabled.
\<close>

definition audio_initial :: "platform \<Rightarrow> audio" where
  "audio_initial p =
     \<lparr> active_tones = 0,
       frequencies = [-1, 0, 0, 0, 0, 0, 0, 0],
       playing_melody = False,
       playing_note = False,
       state_changed = False,
       notes_pointer = Null,
       notes_count = 0,
       notes_repeat = False,
       note_length = 0,
       note_tempo = TEMPO_DEFAULT p,
       current_note = 0,
       note_position = 0,
       note_resting = False,
       tone_multiplexing_rate = AUDIO_TONE_MULTIPLEXING_RATE_DEFAULT p,
       tone_multiplexing_index_shift = 0,
       voices_timer = 0,
       click = [(0, 0), (0, 0)],
       audio_initialized = False,
       audio_config_enable = False,
       calls = [] \<rparr>"

subsection \<open>Helpers for C expressions\<close>

definition log_call :: "call \<Rightarrow> audio \<Rightarrow> audio" where
  "log_call c s = s\<lparr>calls := calls s @ [c]\<rparr>"

text \<open>The array \<^verbatim>\<open>*notes_pointer\<close> and its entries.\<close>

definition melody :: "audio \<Rightarrow> musical_note list" where
  "melody s = (case notes_pointer s of Null \<Rightarrow> [] | Click \<Rightarrow> click s | Song ns \<Rightarrow> ns)"

definition note_freq :: "audio \<Rightarrow> 16 word \<Rightarrow> real" where
  "note_freq s i = fst (melody s ! unat i)"

definition note_duration :: "audio \<Rightarrow> 16 word \<Rightarrow> real" where
  "note_duration s i = snd (melody s ! unat i)"

text \<open>\<^verbatim>\<open>60.0f / note_tempo\<close>\<close>

definition tempo_scale :: "audio \<Rightarrow> real" where
  "tempo_scale s = 60 / real (unat (note_tempo s))"

text \<open>
  Conversion of a float to an integer type truncates towards zero; a value the target
  type cannot hold is undefined in C and wraps here.
\<close>

definition truncate :: "real \<Rightarrow> int" where
  "truncate x = (if 0 \<le> x then \<lfloor>x\<rfloor> else - \<lfloor>- x\<rfloor>)"

definition float_to_uint32 :: "real \<Rightarrow> 32 word" where
  "float_to_uint32 x = word_of_int (truncate x)"

text \<open>The remainder of C's \<^verbatim>\<open>%\<close> on \<^verbatim>\<open>int\<close>, which takes the sign of the dividend.\<close>

definition c_rem :: "int \<Rightarrow> int \<Rightarrow> int" where
  "c_rem a b = sgn a * (\<bar>a\<bar> mod \<bar>b\<bar>)"

subsection \<open>The loops over \<^verbatim>\<open>frequencies\<close>\<close>

text \<open>
  \<^verbatim>\<open>for (int i = n - 1; i >= 0; i--) { found = (frequencies[i] == frequency); if (found) ... break; }\<close>:
  the highest index below \<open>n\<close> that holds the frequency.
\<close>

fun find_down :: "nat \<Rightarrow> real \<Rightarrow> real list \<Rightarrow> nat option" where
  "find_down 0 f fr = None"
| "find_down (Suc i) f fr = (if fr ! i = f then Some i else find_down i f fr)"

text \<open>
  \<^verbatim>\<open>for (int j = i; j < n - 1; j++) { frequencies[j] = frequencies[j + 1]; frequencies[j + 1] = v; }\<close>
\<close>

function shift_down :: "nat \<Rightarrow> nat \<Rightarrow> real \<Rightarrow> real list \<Rightarrow> real list" where
  "shift_down j n v fr =
     (if j + 1 < n then shift_down (j + 1) n v (fr[j := fr ! (j + 1), j + 1 := v]) else fr)"
  by pat_completeness auto
termination
  by (relation "measure (\<lambda>(j, n, v, fr). n - j)") auto

declare shift_down.simps [simp del]

text \<open>
  \<^verbatim>\<open>for (int i = 0; i < n - 1; i++) { frequencies[i] = frequencies[i + 1]; }\<close>, started
  at \<open>i\<close>.
\<close>

function shift_out :: "nat \<Rightarrow> nat \<Rightarrow> real list \<Rightarrow> real list" where
  "shift_out i n fr =
     (if i + 1 < n then shift_out (i + 1) n (fr[i := fr ! (i + 1)]) else fr)"
  by pat_completeness auto
termination
  by (relation "measure (\<lambda>(i, n, fr). n - i)") auto

declare shift_out.simps [simp del]

text \<open>
  \<^verbatim>\<open>for (uint8_t i = 0; i < AUDIO_TONE_STACKSIZE; i++) { frequencies[i] = -1.0f; }\<close>
\<close>

definition clear_frequencies :: "real list \<Rightarrow> real list" where
  "clear_frequencies fr = foldl (\<lambda>a i. a[i := -1]) fr [0..<AUDIO_TONE_STACKSIZE]"

subsection \<open>Operations\<close>

text \<open>
  In C, \<^verbatim>\<open>audio_stop_all\<close>, \<^verbatim>\<open>audio_stop_tone\<close>, \<^verbatim>\<open>audio_play_tone\<close> and
  \<^verbatim>\<open>audio_play_melody\<close> call \<^verbatim>\<open>audio_init\<close> when the subsystem is not initialised, and
  \<^verbatim>\<open>audio_init\<close> calls \<^verbatim>\<open>audio_play_melody\<close> for the start-up song after it has set
  \<^verbatim>\<open>audio_initialized\<close>. Each operation is therefore written once, with the
  initialisation it calls as its first argument (the \<open>_rec\<close> definitions);
  \<open>audio_init\<close> passes the identity, since the operations it reaches find
  \<^verbatim>\<open>audio_initialized\<close> set and never call it, and the operations proper pass
  \<open>audio_init\<close>.
\<close>

definition audio_stop_all_rec :: "(audio \<Rightarrow> audio) \<Rightarrow> audio \<Rightarrow> audio" where
  "audio_stop_all_rec init s0 =
     (let s = (if \<not> audio_initialized s0 then init s0 else s0);
          s = s\<lparr>active_tones := 0\<rparr>;
          s = log_call Driver_Stop s;
          s = s\<lparr>playing_melody := False\<rparr>;
          s = s\<lparr>playing_note := False\<rparr>
      in s\<lparr>frequencies := clear_frequencies (frequencies s)\<rparr>)"

definition audio_stop_tone_rec ::
  "(audio \<Rightarrow> audio) \<Rightarrow> platform \<Rightarrow> real \<Rightarrow> audio \<Rightarrow> audio" where
  "audio_stop_tone_rec init p freq s0 =
     (let s0 = log_call (Stop_Tone freq) s0;
          frequency = (if freq < 0 then -1 * freq else freq)
      in if playing_note s0 then
           let s = (if \<not> audio_initialized s0 then init s0 else s0)
           in case find_down AUDIO_TONE_STACKSIZE frequency (frequencies s) of
                None \<Rightarrow> s
              | Some i \<Rightarrow>
                  let s = s\<lparr>frequencies := (frequencies s)[i := -1]\<rparr>;
                      s = s\<lparr>frequencies :=
                             shift_down i AUDIO_TONE_STACKSIZE (-1) (frequencies s)\<rparr>;
                      s = s\<lparr>state_changed := True\<rparr>;
                      s = s\<lparr>active_tones := active_tones s - 1\<rparr>;
                      s = (if uint (active_tones s) < 0 then s\<lparr>active_tones := 0\<rparr> else s);
                      s = (if AUDIO_ENABLE_TONE_MULTIPLEXING p
                              \<and> tone_multiplexing_index_shift s \<ge> active_tones s
                           then s\<lparr>tone_multiplexing_index_shift := 0\<rparr> else s)
                  in if active_tones s = 0
                     then (log_call Driver_Stop s)\<lparr>playing_note := False\<rparr>
                     else s
         else s0)"

definition audio_play_tone_rec ::
  "(audio \<Rightarrow> audio) \<Rightarrow> platform \<Rightarrow> real \<Rightarrow> audio \<Rightarrow> audio" where
  "audio_play_tone_rec init p freq s0 =
     (let s0 = log_call (Play_Tone freq) s0
      in if \<not> audio_config_enable s0 then s0
         else
           let s = (if \<not> audio_initialized s0 then init s0 else s0);
               frequency = (if freq < 0 then -1 * freq else freq)
           in case find_down (unat (active_tones s)) frequency (frequencies s) of
                Some i \<Rightarrow>
                  s\<lparr>frequencies :=
                      shift_down i (unat (active_tones s)) frequency (frequencies s)\<rparr>
              | None \<Rightarrow>
                  let s = s\<lparr>active_tones := active_tones s + 1\<rparr>;
                      s = (if unat (active_tones s) > AUDIO_TONE_STACKSIZE
                           then
                             let s = s\<lparr>active_tones := of_nat AUDIO_TONE_STACKSIZE\<rparr>
                             in s\<lparr>frequencies :=
                                   shift_out 0 (unat (active_tones s)) (frequencies s)\<rparr>
                           else s);
                      s = s\<lparr>state_changed := True\<rparr>;
                      s = s\<lparr>playing_note := True\<rparr>;
                      s = s\<lparr>frequencies :=
                             (frequencies s)[unat (active_tones s) - 1 := frequency]\<rparr>;
                      s = s\<lparr>voices_timer := timer_read p\<rparr>
                  in if active_tones s = 1 then log_call Driver_Start s else s)"

definition audio_play_melody_rec ::
  "(audio \<Rightarrow> audio) \<Rightarrow> platform \<Rightarrow> melody_ref \<Rightarrow> 16 word \<Rightarrow> bool \<Rightarrow> audio \<Rightarrow> audio" where
  "audio_play_melody_rec init p np n_count n_repeat s0 =
     (if \<not> audio_config_enable s0 then s0
      else
        let s = (if \<not> audio_initialized s0 then init s0 else s0);
            s = (if playing_note s then audio_stop_all_rec init s else s);
            s = s\<lparr>playing_melody := True\<rparr>;
            s = s\<lparr>note_resting := False\<rparr>;
            s = s\<lparr>notes_pointer := np\<rparr>;
            s = s\<lparr>notes_count := n_count\<rparr>;
            s = s\<lparr>notes_repeat := n_repeat\<rparr>;
            s = s\<lparr>current_note := 0\<rparr>;
            s = s\<lparr>note_length := note_duration s (current_note s) * tempo_scale s\<rparr>;
            s = s\<lparr>note_position := 0\<rparr>
        in audio_play_tone_rec init p (note_freq s (current_note s)) s)"

text \<open>
  \<^verbatim>\<open>PLAY_SONG(song)\<close> is a macro of \<^verbatim>\<open>audio.h\<close>, which is not part of the file; it is
  taken to be \<^verbatim>\<open>audio_play_melody(&song, NOTE_ARRAY_SIZE(song), false)\<close>, as the
  comment on \<^verbatim>\<open>notes_repeat\<close> (\<^verbatim>\<open>PLAY_SONG or PLAY_LOOP?\<close>) suggests.
\<close>

definition audio_init :: "platform \<Rightarrow> audio \<Rightarrow> audio" where
  "audio_init p s0 =
     (if audio_initialized s0 then s0
      else
        let s = (case eeprom_enable p of
                   Some b \<Rightarrow> s0\<lparr>audio_config_enable := b\<rparr>
                 | None \<Rightarrow> s0\<lparr>audio_config_enable := True\<rparr>);
            s = (if \<not> audio_initialized s
                 then (log_call Driver_Initialize s)\<lparr>audio_initialized := True\<rparr>
                 else s)
        in if audio_config_enable s
           then audio_play_melody_rec (\<lambda>s. s) p (Song (startup_song p))
                  (of_nat (length (startup_song p))) False s
           else s)"

definition audio_stop_all :: "platform \<Rightarrow> audio \<Rightarrow> audio" where
  "audio_stop_all p = audio_stop_all_rec (audio_init p)"

definition audio_stop_tone :: "platform \<Rightarrow> real \<Rightarrow> audio \<Rightarrow> audio" where
  "audio_stop_tone p = audio_stop_tone_rec (audio_init p) p"

definition audio_play_tone :: "platform \<Rightarrow> real \<Rightarrow> audio \<Rightarrow> audio" where
  "audio_play_tone p = audio_play_tone_rec (audio_init p) p"

definition audio_play_melody ::
  "platform \<Rightarrow> melody_ref \<Rightarrow> 16 word \<Rightarrow> bool \<Rightarrow> audio \<Rightarrow> audio" where
  "audio_play_melody p = audio_play_melody_rec (audio_init p) p"

text \<open>
  \<^verbatim>\<open>(64 / 60)\<close> is a division of two \<^verbatim>\<open>int\<close> constants, and \<^verbatim>\<open>(64 / 60) * note_tempo\<close>
  is still an \<^verbatim>\<open>int\<close>; only the product with \<^verbatim>\<open>duration / 1000.0f\<close> is a float.
\<close>

definition audio_play_click :: "platform \<Rightarrow> 16 word \<Rightarrow> real \<Rightarrow> 16 word \<Rightarrow> audio \<Rightarrow> audio" where
  "audio_play_click p delay frequency duration s0 =
     (let duration_tone =
            real_of_int ((64 div 60) * uint (note_tempo s0)) * (real (unat duration) / 1000);
          duration_delay =
            real_of_int ((64 div 60) * uint (note_tempo s0)) * (real (unat delay) / 1000)
      in if real (unat delay) \<le> 0
         then
           let s = s0\<lparr>click := [(frequency, duration_tone), (0, 0)]\<rparr>
           in audio_play_melody p Click 1 False s
         else
           let s = s0\<lparr>click := [(0, duration_delay), (frequency, duration_tone)]\<rparr>
           in audio_play_melody p Click 2 False s)"

definition audio_is_playing_note :: "audio \<Rightarrow> bool" where
  "audio_is_playing_note s = playing_note s"

definition audio_is_playing_melody :: "audio \<Rightarrow> bool" where
  "audio_is_playing_melody s = playing_melody s"

definition audio_get_number_of_active_tones :: "audio \<Rightarrow> 8 word" where
  "audio_get_number_of_active_tones s = active_tones s"

subsection \<open>The periodic tick\<close>

text \<open>
  The first block of \<^verbatim>\<open>audio_advance_state\<close>: with a tone playing, the multiplexing
  shift is recomputed (when compiled in) and the tick is marked as needing an update.
\<close>

definition advance_effects :: "platform \<Rightarrow> bool \<Rightarrow> audio \<Rightarrow> bool \<times> audio" where
  "advance_effects p goto_next_note s0 =
     (if playing_note s0 then
        let (g, s) =
              (if AUDIO_ENABLE_TONE_MULTIPLEXING p
               then (True,
                     s0\<lparr>tone_multiplexing_index_shift :=
                          word_of_int
                            (c_rem (truncate (real (unat (timer_read p)) / tone_multiplexing_rate s0))
                                   (min (AUDIO_MAX_SIMULTANEOUS_TONES p) (uint (active_tones s0))))\<rparr>)
               else (goto_next_note, s0))
        in (if vibrato p \<or> glissando p then (True, s) else (g, s))
      else (goto_next_note, s0))"

text \<open>
  The second block. \<open>Inl r\<close> is the \<^verbatim>\<open>return r\<close> in the middle of the block, at the end
  of a melody that does not repeat; \<open>Inr g\<close> leaves the block with
  \<^verbatim>\<open>goto_next_note = g\<close>.
\<close>

definition advance_melody ::
  "platform \<Rightarrow> 32 word \<Rightarrow> real \<Rightarrow> bool \<Rightarrow> audio \<Rightarrow> (bool + bool) \<times> audio" where
  "advance_melody p step end goto_next_note s0 =
     (if playing_melody s0 then
        let s = s0\<lparr>note_position := note_position s0 + step\<rparr>;
            goto_next_note = (real (unat (note_position s)) \<ge> note_length s * end)
        in if goto_next_note then
             let previous_note = current_note s;
                 s = s\<lparr>current_note := current_note s + 1\<rparr>;
                 s = s\<lparr>voices_timer := timer_read p\<rparr>
             in if current_note s \<ge> notes_count s \<and> \<not> notes_repeat s then
                  let s = s\<lparr>playing_melody := False\<rparr>;
                      s = audio_stop_tone p (note_freq s previous_note) s
                  in (Inl True, s)
                else
                  let s = (if current_note s \<ge> notes_count s
                           then s\<lparr>current_note := 0\<rparr> else s)
                  in if \<not> note_resting s
                        \<and> note_freq s previous_note = note_freq s (current_note s)
                     then
                       let s = s\<lparr>note_resting := True\<rparr>;
                           s = s\<lparr>current_note := previous_note\<rparr>;
                           shortRest = (0, 2);
                           s = audio_play_tone p (fst shortRest) s;
                           s = audio_stop_tone p (note_freq s previous_note) s;
                           s = s\<lparr>note_position :=
                                  float_to_uint32
                                    (real (unat (note_position s)) - note_length s * end)\<rparr>;
                           s = s\<lparr>note_length := snd shortRest * tempo_scale s\<rparr>
                       in (Inr goto_next_note, s)
                     else
                       let s = s\<lparr>note_resting := False\<rparr>;
                           s = audio_play_tone p (note_freq s (current_note s)) s;
                           s = (if note_freq s previous_note \<noteq> note_freq s (current_note s)
                                then audio_stop_tone p (note_freq s previous_note) s
                                else s);
                           s = s\<lparr>note_position :=
                                  float_to_uint32
                                    (real (unat (note_position s)) - note_length s * end)\<rparr>;
                           s = s\<lparr>note_length :=
                                  note_duration s (current_note s) * tempo_scale s\<rparr>
                       in (Inr goto_next_note, s)
           else (Inr goto_next_note, s)
      else (Inr goto_next_note, s0))"

definition audio_advance_state :: "platform \<Rightarrow> 32 word \<Rightarrow> real \<Rightarrow> audio \<Rightarrow> bool \<times> audio" where
  "audio_advance_state p step end s0 =
     (let goto_next_note = False;
          (goto_next_note, s) = advance_effects p goto_next_note s0
      in case advance_melody p step end goto_next_note s of
           (Inl r, s) \<Rightarrow> (r, s)
         | (Inr goto_next_note, s) \<Rightarrow>
             let s = (if \<not> playing_note s \<and> \<not> playing_melody s
                      then audio_stop_all p s else s)
             in if state_changed s
                then (True, s\<lparr>state_changed := False\<rparr>)
                else (goto_next_note, s))"

subsection \<open>Tempo\<close>

text \<open>
  \<^verbatim>\<open>255 - note_tempo\<close> and \<^verbatim>\<open>note_tempo - 10\<close> are computed in \<^verbatim>\<open>int\<close>, after
  integer promotion; the assignments back to the \<^verbatim>\<open>uint8_t\<close> wrap.
\<close>

definition audio_set_tempo :: "8 word \<Rightarrow> audio \<Rightarrow> audio" where
  "audio_set_tempo tempo s =
     (if tempo < 10 then s\<lparr>note_tempo := 10\<rparr> else s\<lparr>note_tempo := tempo\<rparr>)"

definition audio_increase_tempo :: "8 word \<Rightarrow> audio \<Rightarrow> audio" where
  "audio_increase_tempo tempo_change s =
     (if uint tempo_change > 255 - uint (note_tempo s)
      then s\<lparr>note_tempo := 255\<rparr>
      else s\<lparr>note_tempo := note_tempo s + tempo_change\<rparr>)"

definition audio_decrease_tempo :: "8 word \<Rightarrow> audio \<Rightarrow> audio" where
  "audio_decrease_tempo tempo_change s =
     (if uint tempo_change \<ge> uint (note_tempo s) - 10
      then s\<lparr>note_tempo := 10\<rparr>
      else s\<lparr>note_tempo := note_tempo s - tempo_change\<rparr>)"

subsection \<open>Notions used to state the properties\<close>

text \<open>The tone stack proper: the slots below \<^verbatim>\<open>active_tones\<close>, oldest first.\<close>

definition tone_stack :: "audio \<Rightarrow> real list" where
  "tone_stack s = take (unat (active_tones s)) (frequencies s)"

text \<open>
  The invariant of the tone stack: the array has its eight slots, the counter stays
  within them, the active slots hold distinct frequencies, and \<^verbatim>\<open>playing_note\<close> is
  set exactly when a tone is active.
\<close>

definition audio_inv :: "audio \<Rightarrow> bool" where
  "audio_inv s \<longleftrightarrow>
     length (frequencies s) = AUDIO_TONE_STACKSIZE
     \<and> unat (active_tones s) \<le> AUDIO_TONE_STACKSIZE
     \<and> distinct (tone_stack s)
     \<and> (playing_note s \<longleftrightarrow> active_tones s \<noteq> 0)"

text \<open>A sequence of \<^verbatim>\<open>audio_play_tone\<close> calls.\<close>

definition play_tones :: "platform \<Rightarrow> real list \<Rightarrow> audio \<Rightarrow> audio" where
  "play_tones p fs s = foldl (\<lambda>s f. audio_play_tone p f s) s fs"

text \<open>The operations a caller or the driver can invoke, and a sequence of them.\<close>

datatype operation =
    Op_Init
  | Op_Play_Tone real
  | Op_Stop_Tone real
  | Op_Stop_All
  | Op_Play_Melody "musical_note list" "16 word" bool
  | Op_Advance_State "32 word" real

fun perform :: "platform \<Rightarrow> operation \<Rightarrow> audio \<Rightarrow> audio" where
  "perform p Op_Init s = audio_init p s"
| "perform p (Op_Play_Tone f) s = audio_play_tone p f s"
| "perform p (Op_Stop_Tone f) s = audio_stop_tone p f s"
| "perform p Op_Stop_All s = audio_stop_all p s"
| "perform p (Op_Play_Melody ns n r) s = audio_play_melody p (Song ns) n r s"
| "perform p (Op_Advance_State step e) s = snd (audio_advance_state p step e s)"

definition run :: "platform \<Rightarrow> operation list \<Rightarrow> audio \<Rightarrow> audio" where
  "run p ops s = foldl (\<lambda>s c. perform p c s) s ops"

text \<open>
  The part of \<^verbatim>\<open>audio_play_tone\<close> after its guards and the sign normalisation, and
  the part of \<^verbatim>\<open>audio_stop_tone\<close> inside \<^verbatim>\<open>if (playing_note)\<close> after the
  initialisation guard, named so that they can be reasoned about on their own
  (\<open>play_tone_rec_unfold\<close> and \<open>stop_tone_rec_unfold\<close> below show that they are those
  parts).
\<close>

definition tone_push :: "platform \<Rightarrow> real \<Rightarrow> audio \<Rightarrow> audio" where
  "tone_push p frequency s =
     (case find_down (unat (active_tones s)) frequency (frequencies s) of
        Some i \<Rightarrow>
          s\<lparr>frequencies := shift_down i (unat (active_tones s)) frequency (frequencies s)\<rparr>
      | None \<Rightarrow>
          let s = s\<lparr>active_tones := active_tones s + 1\<rparr>;
              s = (if unat (active_tones s) > AUDIO_TONE_STACKSIZE
                   then
                     let s = s\<lparr>active_tones := of_nat AUDIO_TONE_STACKSIZE\<rparr>
                     in s\<lparr>frequencies := shift_out 0 (unat (active_tones s)) (frequencies s)\<rparr>
                   else s);
              s = s\<lparr>state_changed := True\<rparr>;
              s = s\<lparr>playing_note := True\<rparr>;
              s = s\<lparr>frequencies := (frequencies s)[unat (active_tones s) - 1 := frequency]\<rparr>;
              s = s\<lparr>voices_timer := timer_read p\<rparr>
          in if active_tones s = 1 then log_call Driver_Start s else s)"

definition tone_remove :: "platform \<Rightarrow> real \<Rightarrow> audio \<Rightarrow> audio" where
  "tone_remove p frequency s =
     (case find_down AUDIO_TONE_STACKSIZE frequency (frequencies s) of
        None \<Rightarrow> s
      | Some i \<Rightarrow>
          let s = s\<lparr>frequencies := (frequencies s)[i := -1]\<rparr>;
              s = s\<lparr>frequencies := shift_down i AUDIO_TONE_STACKSIZE (-1) (frequencies s)\<rparr>;
              s = s\<lparr>state_changed := True\<rparr>;
              s = s\<lparr>active_tones := active_tones s - 1\<rparr>;
              s = (if uint (active_tones s) < 0 then s\<lparr>active_tones := 0\<rparr> else s);
              s = (if AUDIO_ENABLE_TONE_MULTIPLEXING p
                      \<and> tone_multiplexing_index_shift s \<ge> active_tones s
                   then s\<lparr>tone_multiplexing_index_shift := 0\<rparr> else s)
          in if active_tones s = 0
             then (log_call Driver_Stop s)\<lparr>playing_note := False\<rparr>
             else s)"

text \<open>
  The call on which a melody that does not repeat reaches its end: the tick completes
  the current note and there is no next one.
\<close>

definition melody_ends :: "32 word \<Rightarrow> real \<Rightarrow> audio \<Rightarrow> bool" where
  "melody_ends step e s \<longleftrightarrow>
     playing_melody s
     \<and> real (unat (note_position s + step)) \<ge> note_length s * e
     \<and> current_note s + 1 \<ge> notes_count s
     \<and> \<not> notes_repeat s"

text \<open>
  A sequence of ticks with one \<^verbatim>\<open>end\<close> fraction, and the frequencies requested by the
  calls of a log, oldest first.
\<close>

definition advance_all :: "platform \<Rightarrow> real \<Rightarrow> 32 word list \<Rightarrow> audio \<Rightarrow> audio" where
  "advance_all p e steps s = foldl (\<lambda>s step. snd (audio_advance_state p step e s)) s steps"

fun requests :: "call list \<Rightarrow> real list" where
  "requests [] = []"
| "requests (Play_Tone f # cs) = f # requests cs"
| "requests (c # cs) = requests cs"

text \<open>
  The time a playback takes: the steps of the ticks fed to \<^verbatim>\<open>audio_advance_state\<close>
  up to and including the one that ends the melody, or \<open>None\<close> when the ticks run out
  before that.
\<close>

fun elapsed :: "platform \<Rightarrow> real \<Rightarrow> 32 word list \<Rightarrow> audio \<Rightarrow> nat option" where
  "elapsed p e [] s = None"
| "elapsed p e (k # ks) s =
     (let s' = snd (audio_advance_state p k e s)
      in if \<not> playing_melody s' then Some (unat k)
         else map_option (\<lambda>t. unat k + t) (elapsed p e ks s'))"

declare elapsed.simps [simp del]

text \<open>
  The C code computes note lengths and positions in \<^verbatim>\<open>float\<close>, which is IEEE 754
  binary32 on the targets of the firmware; the definitions above compute them in the
  reals. The two agree wherever every value involved is a binary32 value, since an
  operation whose exact result is representable is not rounded. \<open>binary32_exact x\<close>
  holds when \<open>x\<close> is \<open>n / 2 ^ k\<close> for an integer \<open>n\<close> of magnitude below \<open>2 ^ 24\<close>
  and \<open>k < 150\<close>: such a value is a binary32 value (a significand of at most 24 bits
  and an exponent of at least \<open>-149\<close>).
\<close>

definition binary32_exact :: "real \<Rightarrow> bool" where
  "binary32_exact x =
     list_ex (\<lambda>k. real_of_int \<lfloor>x * 2 ^ k\<rfloor> = x * 2 ^ k \<and> \<bar>x * 2 ^ k\<bar> < 2 ^ 24) [0..<150]"

text \<open>
  No two consecutive notes of a melody have the same frequency; the whole number of
  position units of a note at a tempo scale, and the notes whose length is exactly that
  number, at least \<open>m\<close> and below \<open>2 ^ 23\<close> (so that a position of less than two note
  lengths stays below \<open>2 ^ 24\<close>, where every whole number is a binary32 value); the
  nominal length of a melody, the sum of \<open>duration * (60 / tempo)\<close>; and the measured
  time agreeing with a nominal length within one tick step.
\<close>

fun distinct_neighbours :: "musical_note list \<Rightarrow> bool" where
  "distinct_neighbours (x # y # zs) = (fst x \<noteq> fst y \<and> distinct_neighbours (y # zs))"
| "distinct_neighbours zs = True"

definition note_ticks :: "real \<Rightarrow> musical_note \<Rightarrow> nat" where
  "note_ticks scale n = nat \<lfloor>snd n * scale\<rfloor>"

definition whole_length :: "real \<Rightarrow> nat \<Rightarrow> musical_note \<Rightarrow> bool" where
  "whole_length scale m n \<longleftrightarrow>
     snd n * scale = real (note_ticks scale n) \<and> m \<le> note_ticks scale n
     \<and> note_ticks scale n < 2 ^ 23"

definition nominal_length :: "real \<Rightarrow> musical_note list \<Rightarrow> real" where
  "nominal_length scale ns = sum_list (map (\<lambda>n. snd n * scale) ns)"

definition total_ticks :: "real \<Rightarrow> musical_note list \<Rightarrow> nat" where
  "total_ticks scale ns = sum_list (map (note_ticks scale) ns)"

definition within_one_tick :: "nat option \<Rightarrow> real \<Rightarrow> nat \<Rightarrow> bool" where
  "within_one_tick r nominal step =
     (case r of None \<Rightarrow> False | Some t \<Rightarrow> \<bar>real t - nominal\<bar> \<le> real step)"

text \<open>
  The melody \<open>ns\<close> is playing its note \<open>i\<close>, \<open>pos\<close> units into it.
\<close>

definition playing_at :: "musical_note list \<Rightarrow> real \<Rightarrow> nat \<Rightarrow> nat \<Rightarrow> audio \<Rightarrow> bool" where
  "playing_at ns scale i pos s \<longleftrightarrow>
     playing_melody s \<and> audio_initialized s \<and> notes_pointer s = Song ns
     \<and> notes_count s = of_nat (length ns) \<and> \<not> notes_repeat s \<and> tempo_scale s = scale
     \<and> current_note s = of_nat i \<and> i < length ns
     \<and> note_length s = snd (ns ! i) * scale \<and> unat (note_position s) = pos"

text \<open>
  The tone stack is \<open>st\<close>, with nothing left behind it: the array holds \<open>st\<close> followed
  by \<open>-1\<close> in every other slot (as \<^verbatim>\<open>audio_stop_all\<close> and the removal loop leave them),
  the counter is the length of \<open>st\<close>, whose entries are distinct and not negative, and
  \<^verbatim>\<open>playing_note\<close> is set exactly when \<open>st\<close> is not empty.
\<close>

definition clean_stack :: "real list \<Rightarrow> audio \<Rightarrow> bool" where
  "clean_stack st s \<longleftrightarrow>
     frequencies s = st @ replicate (AUDIO_TONE_STACKSIZE - length st) (-1)
     \<and> length st \<le> AUDIO_TONE_STACKSIZE
     \<and> active_tones s = of_nat (length st)
     \<and> playing_note s = (st \<noteq> [])
     \<and> distinct st \<and> (\<forall>x\<in>set st. 0 \<le> x)"

text \<open>
  What holds of the tone stack and of the calls logged since the start of a melody
  \<open>ns\<close> that does not repeat and was started when the log had \<open>n0\<close> entries. The tone 0
  of a rest has never been released. While the melody plays the driver has not been
  stopped, and the stack is that of the current note, before any rest; the 0 of the rest
  alone, during a rest, which is followed by a note of the frequency of the current one;
  or the 0 of a rest below the current note, after a rest. Once the melody is over the
  stack is empty, if no rest was inserted (and then no two consecutive notes were equal),
  or holds the 0 of a rest, and then the driver has not been stopped.
\<close>

definition rest_inv :: "musical_note list \<Rightarrow> nat \<Rightarrow> audio \<Rightarrow> bool" where
  "rest_inv ns n0 s \<longleftrightarrow>
     audio_initialized s \<and> audio_config_enable s \<and> notes_pointer s = Song ns
     \<and> notes_count s = of_nat (length ns) \<and> \<not> notes_repeat s
     \<and> n0 \<le> length (calls s) \<and> Stop_Tone 0 \<notin> set (drop n0 (calls s))
     \<and> (let i = unat (current_note s); f = fst (ns ! i);
            rested = (Play_Tone 0 \<in> set (drop n0 (calls s)));
            stopped = (Driver_Stop \<in> set (drop n0 (calls s)))
        in if playing_melody s
           then i < length ns \<and> \<not> stopped
                \<and> (if note_resting s
                   then Suc i < length ns \<and> fst (ns ! Suc i) = f \<and> rested \<and> clean_stack [0] s
                   else if rested then clean_stack [0, f] s
                   else clean_stack [f] s \<and> distinct_neighbours (take (Suc i) ns))
           else if rested then \<not> stopped \<and> clean_stack [0] s
           else clean_stack [] s \<and> distinct_neighbours ns)"

subsection \<open>A concrete platform\<close>

text \<open>
  A build without EEPROM support and without tone multiplexing, at 120 beats per
  minute, whose start-up song is a single note. \<open>audio_ready\<close> is the state after the
  first \<^verbatim>\<open>audio_stop_all\<close>: initialised, enabled and silent.
\<close>

definition demo_platform :: platform where
  "demo_platform =
     \<lparr> TEMPO_DEFAULT = 120,
       startup_song = [(440, 8)],
       eeprom_enable = None,
       AUDIO_ENABLE_TONE_MULTIPLEXING = False,
       AUDIO_MAX_SIMULTANEOUS_TONES = 3,
       AUDIO_TONE_MULTIPLEXING_RATE_DEFAULT = 0,
       vibrato = False,
       glissando = False,
       timer_read = 0 \<rparr>"

definition audio_ready :: audio where
  "audio_ready = audio_stop_all demo_platform (audio_initial demo_platform)"

text \<open>Two tones on the stack, 1 requested before 2.\<close>

definition two_tones :: audio where
  "two_tones = play_tones demo_platform [1, 2] audio_ready"

text \<open>
  Three playbacks started in \<open>audio_ready\<close>: the melody \<^verbatim>\<open>[(440,4),(440,4)]\<close>, the
  click \<^verbatim>\<open>audio_play_click(0, 1000, 5)\<close> and the one-note melody \<^verbatim>\<open>[(440,4)]\<close>.
\<close>

definition twice_440 :: audio where
  "twice_440 = audio_play_melody demo_platform (Song [(440, 4), (440, 4)]) 2 False audio_ready"

definition clicked :: audio where
  "clicked = audio_play_click demo_platform 0 1000 5 audio_ready"

definition one_note :: audio where
  "one_note = audio_play_melody demo_platform (Song [(440, 4)]) 1 False audio_ready"

text \<open>
  Playbacks for the timing of melodies: three notes of length 1.5 at 240 beats per
  minute, three equal notes and three different notes of length 1 at 120, and two notes
  of lengths 2 and 3 at 120.
\<close>

definition fast_ready :: audio where
  "fast_ready = audio_set_tempo 240 audio_ready"

definition three_notes :: audio where
  "three_notes =
     audio_play_melody demo_platform (Song [(440, 6), (880, 6), (660, 6)]) 3 False fast_ready"

definition three_equal :: audio where
  "three_equal =
     audio_play_melody demo_platform (Song [(440, 2), (440, 2), (440, 2)]) 3 False audio_ready"

definition three_short :: audio where
  "three_short =
     audio_play_melody demo_platform (Song [(440, 2), (880, 2), (660, 2)]) 3 False audio_ready"

definition two_notes :: audio where
  "two_notes =
     audio_play_melody demo_platform (Song [(440, 4), (880, 6)]) 2 False audio_ready"



section \<open>Properties\<close>

subsection \<open>What the loops compute\<close>

lemma length_shift_down [simp]: "length (shift_down j n v fr) = length fr"
  by (induction j n v fr rule: shift_down.induct) (subst shift_down.simps, simp)

lemma length_shift_out [simp]: "length (shift_out i n fr) = length fr"
  by (induction i n fr rule: shift_out.induct) (subst shift_out.simps, simp)

lemma nth_shift_down:
  "j < n \<Longrightarrow> n \<le> length fr \<Longrightarrow> fr ! j = v \<Longrightarrow> k < length fr \<Longrightarrow>
   shift_down j n v fr ! k =
     (if k < j then fr ! k else if Suc k < n then fr ! Suc k else if Suc k = n then v else fr ! k)"
proof (induction j n v fr rule: shift_down.induct)
  case (1 j n v fr)
  show ?case
  proof (cases "j + 1 < n")
    case True
    have "shift_down j n v fr ! k = shift_down (j + 1) n v (fr[j := fr ! (j + 1), j + 1 := v]) ! k"
      using True by (subst shift_down.simps) simp
    also have "\<dots> = (if k < j + 1 then (fr[j := fr ! (j + 1), j + 1 := v]) ! k
         else if Suc k < n then (fr[j := fr ! (j + 1), j + 1 := v]) ! Suc k
         else if Suc k = n then v else (fr[j := fr ! (j + 1), j + 1 := v]) ! k)"
      using True "1.prems" by (intro "1.IH") simp_all
    also have "\<dots> = (if k < j then fr ! k else if Suc k < n then fr ! Suc k
         else if Suc k = n then v else fr ! k)"
      using True "1.prems" by (auto simp: nth_list_update less_Suc_eq)
    finally show ?thesis .
  next
    case False
    with "1.prems" have "Suc j = n" by simp
    with False "1.prems" show ?thesis
      by (subst shift_down.simps) auto
  qed
qed

text \<open>Entry \<open>j\<close> leaves its place and \<open>v\<close> arrives at the top of the first \<open>n\<close> slots.\<close>

lemma shift_down_eq:
  assumes "j < n" "n \<le> length fr" "fr ! j = v"
  shows "shift_down j n v fr = take j fr @ drop (Suc j) (take n fr) @ [v] @ drop n fr"
proof (rule nth_equalityI)
  show "length (shift_down j n v fr)
        = length (take j fr @ drop (Suc j) (take n fr) @ [v] @ drop n fr)"
    using assms by simp
next
  fix k assume "k < length (shift_down j n v fr)"
  then have k: "k < length fr" by simp
  show "shift_down j n v fr ! k = (take j fr @ drop (Suc j) (take n fr) @ [v] @ drop n fr) ! k"
    using assms k
    by (simp add: nth_shift_down nth_append min_def) (auto simp: less_Suc_eq)
qed

lemma nth_shift_out:
  "i < n \<Longrightarrow> n \<le> length fr \<Longrightarrow> k < length fr \<Longrightarrow>
   shift_out i n fr ! k = (if i \<le> k \<and> Suc k < n then fr ! Suc k else fr ! k)"
proof (induction i n fr rule: shift_out.induct)
  case (1 i n fr)
  show ?case
  proof (cases "i + 1 < n")
    case True
    have "shift_out i n fr ! k = shift_out (i + 1) n (fr[i := fr ! (i + 1)]) ! k"
      using True by (subst shift_out.simps) simp
    also have "\<dots> = (if i + 1 \<le> k \<and> Suc k < n then (fr[i := fr ! (i + 1)]) ! Suc k
         else (fr[i := fr ! (i + 1)]) ! k)"
      using True "1.prems" by (intro "1.IH") simp_all
    also have "\<dots> = (if i \<le> k \<and> Suc k < n then fr ! Suc k else fr ! k)"
      using True "1.prems" by (auto simp: nth_list_update)
    finally show ?thesis .
  next
    case False
    with "1.prems" show ?thesis
      by (subst shift_out.simps) auto
  qed
qed

text \<open>Shifting the oldest tone out and storing \<open>v\<close> in the freed top slot.\<close>

lemma shift_out_push:
  assumes "0 < n" "n \<le> length fr"
  shows "(shift_out 0 n fr)[n - 1 := v] = tl (take n fr) @ [v] @ drop n fr"
proof (rule nth_equalityI)
  show "length ((shift_out 0 n fr)[n - 1 := v]) = length (tl (take n fr) @ [v] @ drop n fr)"
    using assms by simp
next
  fix k assume "k < length ((shift_out 0 n fr)[n - 1 := v])"
  then have k: "k < length fr" by simp
  show "(shift_out 0 n fr)[n - 1 := v] ! k = (tl (take n fr) @ [v] @ drop n fr) ! k"
    using assms k
    by (simp add: nth_shift_out nth_append nth_list_update nth_tl min_def)
       (auto simp: less_Suc_eq)
qed

lemma find_down_None: "find_down n f fr = None \<longleftrightarrow> (\<forall>i<n. fr ! i \<noteq> f)"
  by (induction n) (auto simp: less_Suc_eq)

lemma find_down_Some:
  "find_down n f fr = Some i
   \<longleftrightarrow> i < n \<and> fr ! i = f \<and> (\<forall>j. i < j \<and> j < n \<longrightarrow> fr ! j \<noteq> f)"
  by (induction n) (auto simp: less_Suc_eq)


lemma length_clear_frequencies [simp]: "length (clear_frequencies fr) = length fr"
proof -
  have "length (foldl (\<lambda>a i. a[i := v]) fr is) = length fr" for v :: real and "is"
    by (induction "is" arbitrary: fr) simp_all
  then show ?thesis by (simp add: clear_frequencies_def)
qed

subsection \<open>Machine integers\<close>

lemma uint8_bounds: "0 \<le> uint (w :: 8 word) \<and> uint w < 256"
  using uint_lt2p [of w] by simp

lemma increase_tempo_uint:
  "uint (note_tempo (audio_increase_tempo d s)) = min 255 (uint (note_tempo s) + uint d)"
proof (cases "uint d > 255 - uint (note_tempo s)")
  case True
  then show ?thesis by (simp add: audio_increase_tempo_def)
next
  case False
  then have "uint (note_tempo s) + uint d < 2 ^ LENGTH(8)" by simp
  then have "uint (note_tempo s + d) = uint (note_tempo s) + uint d"
    by (simp only: uint_add_lem)
  with False show ?thesis by (simp add: audio_increase_tempo_def)
qed

lemma decrease_tempo_uint:
  "uint (note_tempo (audio_decrease_tempo d s)) = max 10 (uint (note_tempo s) - uint d)"
proof (cases "uint d \<ge> uint (note_tempo s) - 10")
  case True
  then show ?thesis by (simp add: audio_decrease_tempo_def)
next
  case False
  then have "uint d \<le> uint (note_tempo s)" using uint8_bounds [of d] by linarith
  then have "uint (note_tempo s - d) = uint (note_tempo s) - uint d"
    by (simp only: uint_sub_lem)
  with False show ?thesis by (simp add: audio_decrease_tempo_def)
qed

text \<open>
  Claim C8. \<^verbatim>\<open>audio_set_tempo(d)\<close> stores 10 when \<open>d < 10\<close> and \<open>d\<close> otherwise, with no
  upper clamp; \<^verbatim>\<open>audio_increase_tempo(d)\<close> stores \<open>min 255 (t + d)\<close> and
  \<^verbatim>\<open>audio_decrease_tempo(d)\<close> stores \<open>max 10 (t - d)\<close>, where \<open>t\<close> is the current tempo
  and the sums and differences are those of the integers, so neither wraps.
\<close>

theorem tempo_saturates:
  "note_tempo (audio_set_tempo d s) = (if d < 10 then 10 else d)
   \<and> uint (note_tempo (audio_increase_tempo d s)) = min 255 (uint (note_tempo s) + uint d)
   \<and> uint (note_tempo (audio_decrease_tempo d s)) = max 10 (uint (note_tempo s) - uint d)"
  by (simp add: audio_set_tempo_def increase_tempo_uint decrease_tempo_uint)

theorem tempo_saturates_witness:
  "note_tempo (audio_set_tempo 7 (audio_initial demo_platform)) = 10
   \<and> note_tempo (audio_set_tempo 255 (audio_initial demo_platform)) = 255
   \<and> uint (note_tempo (audio_increase_tempo 100
              (audio_set_tempo 200 (audio_initial demo_platform)))) = 255
   \<and> uint (note_tempo (audio_decrease_tempo 100
              (audio_set_tempo 60 (audio_initial demo_platform)))) = 10"
  using tempo_saturates [of 7 "audio_initial demo_platform"]
    tempo_saturates [of 255 "audio_initial demo_platform"]
    tempo_saturates [of 100 "audio_set_tempo 200 (audio_initial demo_platform)"]
    tempo_saturates [of 100 "audio_set_tempo 60 (audio_initial demo_platform)"]
  by (simp add: audio_set_tempo_def)

subsection \<open>The tone stack and its invariant\<close>

lemma log_call_simps [simp]:
  "audio_config_enable (log_call c s) = audio_config_enable s"
  "audio_initialized (log_call c s) = audio_initialized s"
  "playing_note (log_call c s) = playing_note s"
  "playing_melody (log_call c s) = playing_melody s"
  "active_tones (log_call c s) = active_tones s"
  "frequencies (log_call c s) = frequencies s"
  "state_changed (log_call c s) = state_changed s"
  "calls (log_call c s) = calls s @ [c]"
  by (simp_all add: log_call_def)

lemma play_tone_rec_unfold:
  "audio_play_tone_rec init p f s =
     (if \<not> audio_config_enable s then log_call (Play_Tone f) s
      else tone_push p \<bar>f\<bar>
             (if \<not> audio_initialized s then init (log_call (Play_Tone f) s)
              else log_call (Play_Tone f) s))"
proof -
  have "audio_play_tone_rec init p f s =
     (let s0 = log_call (Play_Tone f) s
      in if \<not> audio_config_enable s0 then s0
         else tone_push p (if f < 0 then -1 * f else f)
                (if \<not> audio_initialized s0 then init s0 else s0))"
    unfolding audio_play_tone_rec_def tone_push_def Let_def by (rule refl)
  then show ?thesis by (simp add: Let_def abs_if)
qed

lemma stop_tone_rec_unfold:
  "audio_stop_tone_rec init p f s =
     (if playing_note s
      then tone_remove p \<bar>f\<bar>
             (if \<not> audio_initialized s then init (log_call (Stop_Tone f) s)
              else log_call (Stop_Tone f) s)
      else log_call (Stop_Tone f) s)"
proof -
  have "audio_stop_tone_rec init p f s =
     (let s0 = log_call (Stop_Tone f) s
      in if playing_note s0
         then tone_remove p (if f < 0 then -1 * f else f)
                (if \<not> audio_initialized s0 then init s0 else s0)
         else s0)"
    unfolding audio_stop_tone_rec_def tone_remove_def Let_def by (rule refl)
  then show ?thesis by (simp add: Let_def abs_if)
qed

lemma tone_push_found:
  assumes "find_down (unat (active_tones s)) f (frequencies s) = Some i"
    and "unat (active_tones s) \<le> length (frequencies s)"
  shows "tone_push p f s =
     s\<lparr>frequencies := take i (frequencies s) @ drop (Suc i) (tone_stack s) @ [f]
                        @ drop (unat (active_tones s)) (frequencies s)\<rparr>"
proof -
  from assms(1) have "i < unat (active_tones s)" "frequencies s ! i = f"
    by (simp_all add: find_down_Some)
  then have "shift_down i (unat (active_tones s)) f (frequencies s)
    = take i (frequencies s) @ drop (Suc i) (tone_stack s) @ [f]
        @ drop (unat (active_tones s)) (frequencies s)"
    using assms(2) unfolding tone_stack_def by (intro shift_down_eq)
  then show ?thesis using assms(1) by (simp add: tone_push_def)
qed

lemma unat8_Suc: "unat (w :: 8 word) \<le> 8 \<Longrightarrow> unat (w + 1) = Suc (unat w)"
  by (simp add: unat_word_ariths)

lemma tone_push_new:
  assumes "find_down (unat (active_tones s)) f (frequencies s) = None"
    and "unat (active_tones s) < AUDIO_TONE_STACKSIZE"
  shows "tone_push p f s =
     (if active_tones s = 0 then log_call Driver_Start else (\<lambda>s. s))
       (s\<lparr>active_tones := active_tones s + 1, state_changed := True, playing_note := True,
          frequencies := (frequencies s)[unat (active_tones s) := f],
          voices_timer := timer_read p\<rparr>)"
  using assms
  by (simp add: tone_push_def Let_def AUDIO_TONE_STACKSIZE_def unat8_Suc)

lemma tone_push_evict:
  assumes "find_down (unat (active_tones s)) f (frequencies s) = None"
    and "unat (active_tones s) = AUDIO_TONE_STACKSIZE"
    and "length (frequencies s) = AUDIO_TONE_STACKSIZE"
  shows "tone_push p f s =
     s\<lparr>active_tones := 8, state_changed := True, playing_note := True,
       frequencies := tl (frequencies s) @ [f], voices_timer := timer_read p\<rparr>"
proof -
  have "(shift_out 0 8 (frequencies s))[8 - 1 := f]
      = tl (take 8 (frequencies s)) @ [f] @ drop 8 (frequencies s)"
    using assms(3) by (intro shift_out_push) (simp_all add: AUDIO_TONE_STACKSIZE_def)
  then have "(shift_out 0 8 (frequencies s))[7 := f] = tl (frequencies s) @ [f]"
    using assms(3) by (simp add: AUDIO_TONE_STACKSIZE_def)
  then show ?thesis
    using assms
    by (simp add: tone_push_def Let_def AUDIO_TONE_STACKSIZE_def unat8_Suc)
qed

lemma tone_remove_found:
  assumes "find_down AUDIO_TONE_STACKSIZE f (frequencies s) = Some i"
    and "length (frequencies s) = AUDIO_TONE_STACKSIZE"
  shows "tone_remove p f s =
     (if active_tones s = 1 then (\<lambda>s. (log_call Driver_Stop s)\<lparr>playing_note := False\<rparr>)
      else (\<lambda>s. s))
       (s\<lparr>frequencies := take i (frequencies s) @ drop (Suc i) (frequencies s) @ [-1],
          state_changed := True, active_tones := active_tones s - 1,
          tone_multiplexing_index_shift :=
            (if AUDIO_ENABLE_TONE_MULTIPLEXING p
                \<and> tone_multiplexing_index_shift s \<ge> active_tones s - 1
             then 0 else tone_multiplexing_index_shift s)\<rparr>)"
proof -
  from assms(1) have i: "i < AUDIO_TONE_STACKSIZE" by (simp add: find_down_Some)
  have "shift_down i AUDIO_TONE_STACKSIZE (-1) ((frequencies s)[i := -1])
    = take i ((frequencies s)[i := -1])
      @ drop (Suc i) (take AUDIO_TONE_STACKSIZE ((frequencies s)[i := -1])) @ [-1]
      @ drop AUDIO_TONE_STACKSIZE ((frequencies s)[i := -1])"
    using i assms(2) by (intro shift_down_eq) simp_all
  then have "shift_down i AUDIO_TONE_STACKSIZE (-1) ((frequencies s)[i := -1])
    = take i (frequencies s) @ drop (Suc i) (frequencies s) @ [-1]"
    using i assms(2) by simp
  then show ?thesis
    using assms(1) by (simp add: tone_remove_def Let_def)
qed

lemma tone_remove_missing:
  "find_down AUDIO_TONE_STACKSIZE f (frequencies s) = None \<Longrightarrow> tone_remove p f s = s"
  by (simp add: tone_remove_def)

lemma audio_inv_log [simp]: "audio_inv (log_call c s) = audio_inv s"
  by (simp add: audio_inv_def log_call_def tone_stack_def)

lemma distinct_move_top:
  assumes "distinct xs" "i < length xs"
  shows "distinct (take i xs @ drop (Suc i) xs @ [xs ! i])"
proof -
  have "xs = take i xs @ xs ! i # drop (Suc i) xs"
    using assms by (simp add: id_take_nth_drop)
  then have "distinct (take i xs @ xs ! i # drop (Suc i) xs)" using assms by simp
  then show ?thesis by auto
qed

lemma take_prefix: "m \<le> length xs \<Longrightarrow> take m (xs @ ys) = take m xs"
  by simp

lemma in_set_tl: "x \<in> set (tl xs) \<Longrightarrow> x \<in> set xs"
  by (cases xs) auto

lemma distinct_delete_nth:
  assumes "distinct (take n fr)" "n \<le> length fr" "0 < n"
  shows "distinct (take (n - 1) (take i fr @ drop (Suc i) fr @ [v]))"
proof (cases "i < n - 1")
  case False
  then have "n - 1 \<le> length (take i fr)" using assms(2) by simp
  then have "take (n - 1) (take i fr @ drop (Suc i) fr @ [v]) = take (n - 1) (take i fr)"
    by (rule take_prefix)
  also have "\<dots> = take (n - 1) (take n fr)" using False by (simp add: min_def)
  finally show ?thesis using assms(1) by (simp only: distinct_take)
next
  case True
  then have "take (n - 1) (take i fr @ drop (Suc i) fr @ [v])
      = take i (take n fr) @ drop (Suc i) (take n fr)"
    using assms(2,3) by (simp add: min_def drop_take)
  moreover have "distinct (take i (take n fr) @ drop (Suc i) (take n fr) @ [take n fr ! i])"
    using assms True by (intro distinct_move_top) simp_all
  ultimately show ?thesis by simp
qed

lemma audio_invI:
  assumes "length (frequencies s) = 8" "unat (active_tones s) = n" "n \<le> 8"
    "distinct (take n (frequencies s))" "playing_note s \<longleftrightarrow> n \<noteq> 0"
  shows "audio_inv s"
  using assms by (auto simp: audio_inv_def tone_stack_def AUDIO_TONE_STACKSIZE_def unat_eq_0)

lemma inv_tone_push:
  assumes "audio_inv s"
  shows "audio_inv (tone_push p f s) \<and> playing_note (tone_push p f s)"
proof -
  let ?n = "unat (active_tones s)" and ?fr = "frequencies s"
  from assms have len: "length ?fr = 8" and n8: "?n \<le> 8" and dist: "distinct (take ?n ?fr)"
    and pn: "playing_note s \<longleftrightarrow> active_tones s \<noteq> 0"
    by (simp_all add: audio_inv_def tone_stack_def AUDIO_TONE_STACKSIZE_def)
  show ?thesis
  proof (cases "find_down ?n f ?fr")
    case (Some i)
    then have i: "i < ?n" "?fr ! i = f" by (simp_all add: find_down_Some)
    have eq: "tone_push p f s =
       s\<lparr>frequencies := take i ?fr @ drop (Suc i) (tone_stack s) @ [f] @ drop ?n ?fr\<rparr>"
      using Some len n8 by (intro tone_push_found) simp_all
    have "take ?n (take i ?fr @ drop (Suc i) (take ?n ?fr) @ [f] @ drop ?n ?fr)
        = take i (take ?n ?fr) @ drop (Suc i) (take ?n ?fr) @ [take ?n ?fr ! i]"
      using i n8 len by (simp add: min_def)
    moreover have "distinct (take i (take ?n ?fr) @ drop (Suc i) (take ?n ?fr) @ [take ?n ?fr ! i])"
      using dist i n8 len by (intro distinct_move_top) simp_all
    moreover have "active_tones s \<noteq> 0" using i by (auto simp: unat_eq_0)
    ultimately show ?thesis
      using pn len n8 i
      by (simp add: eq audio_inv_def tone_stack_def AUDIO_TONE_STACKSIZE_def)
  next
    case None
    then have nf: "f \<notin> set (take ?n ?fr)"
      using n8 len by (auto simp: find_down_None in_set_conv_nth)
    show ?thesis
    proof (cases "?n = 8")
      case True
      have eq: "tone_push p f s =
         s\<lparr>active_tones := 8, state_changed := True, playing_note := True,
           frequencies := tl ?fr @ [f], voices_timer := timer_read p\<rparr>"
        using None True len by (intro tone_push_evict) (simp_all add: AUDIO_TONE_STACKSIZE_def)
      have "distinct (tl ?fr @ [f])"
        using dist nf True len by (auto simp: distinct_tl dest: in_set_tl)
      then show ?thesis using len
        by (simp add: eq audio_inv_def tone_stack_def AUDIO_TONE_STACKSIZE_def)
    next
      case False
      then have n7: "?n < 8" using n8 by simp
      have eq: "tone_push p f s =
         (if active_tones s = 0 then log_call Driver_Start else (\<lambda>s. s))
           (s\<lparr>active_tones := active_tones s + 1, state_changed := True, playing_note := True,
              frequencies := ?fr[?n := f], voices_timer := timer_read p\<rparr>)"
        using None n7 by (intro tone_push_new) (simp_all add: AUDIO_TONE_STACKSIZE_def)
      have un: "unat (active_tones s + 1) = Suc ?n" using n8 by (simp add: unat8_Suc)
      then have nz: "active_tones s + 1 \<noteq> 0" by (metis Zero_not_Suc unat_0)
      have tk: "take (Suc ?n) (?fr[?n := f]) = take ?n ?fr @ [f]"
        using n7 len by (simp add: take_Suc_conv_app_nth)
      have "audio_inv (tone_push p f s)"
      proof (rule audio_invI [where n = "Suc ?n"])
        show "length (frequencies (tone_push p f s)) = 8" using len by (simp add: eq)
        show "unat (active_tones (tone_push p f s)) = Suc ?n" using un by (simp add: eq)
        show "Suc ?n \<le> 8" using n7 by simp
        have "frequencies (tone_push p f s) = ?fr[?n := f]" by (simp add: eq)
        then show "distinct (take (Suc ?n) (frequencies (tone_push p f s)))"
          using dist nf by (simp only: tk) simp
        show "playing_note (tone_push p f s) \<longleftrightarrow> Suc ?n \<noteq> 0" by (simp add: eq)
      qed
      then show ?thesis by (simp add: eq)
    qed
  qed
qed

lemma unat8_pred: "(w :: 8 word) \<noteq> 0 \<Longrightarrow> unat (w - 1) = unat w - 1"
  by (simp add: unat_minus_one)

lemma inv_tone_remove:
  assumes "audio_inv s" "playing_note s"
  shows "audio_inv (tone_remove p f s)"
proof -
  let ?n = "unat (active_tones s)" and ?fr = "frequencies s"
  from assms have len: "length ?fr = 8" and n8: "?n \<le> 8" and dist: "distinct (take ?n ?fr)"
    and nz: "active_tones s \<noteq> 0"
    by (simp_all add: audio_inv_def tone_stack_def AUDIO_TONE_STACKSIZE_def)
  from nz have n0: "0 < ?n" by (simp add: unat_gt_0)
  have un: "unat (active_tones s - 1) = ?n - 1" using nz by (rule unat8_pred)
  show ?thesis
  proof (cases "find_down AUDIO_TONE_STACKSIZE f ?fr")
    case None
    then show ?thesis using assms by (simp add: tone_remove_missing)
  next
    case (Some i)
    then have i: "i < 8" by (simp add: find_down_Some AUDIO_TONE_STACKSIZE_def)
    from len have "length ?fr = AUDIO_TONE_STACKSIZE" by (simp add: AUDIO_TONE_STACKSIZE_def)
    note eq = tone_remove_found [OF Some this, of p]
    have d: "distinct (take (?n - 1) (take i ?fr @ drop (Suc i) ?fr @ [-1]))"
      using dist n8 n0 len by (intro distinct_delete_nth) simp_all
    show ?thesis
    proof (cases "active_tones s = 1")
      case True
      then show ?thesis using len i
        by (simp add: eq audio_inv_def tone_stack_def AUDIO_TONE_STACKSIZE_def log_call_def)
    next
      case False
      then have n1: "?n - 1 \<noteq> 0" using un by (metis diff_0_right diff_self_eq_0 unat_eq_0 right_minus_eq)
      show ?thesis
      proof (rule audio_invI [where n = "?n - 1"])
        show "length (frequencies (tone_remove p f s)) = 8" using len i False by (simp add: eq)
        show "unat (active_tones (tone_remove p f s)) = ?n - 1" using un False by (simp add: eq)
        show "?n - 1 \<le> 8" using n8 by simp
        have "frequencies (tone_remove p f s) = take i ?fr @ drop (Suc i) ?fr @ [-1]"
          using False by (simp add: eq)
        then show "distinct (take (?n - 1) (frequencies (tone_remove p f s)))"
          using d by (simp only:)
        show "playing_note (tone_remove p f s) \<longleftrightarrow> ?n - 1 \<noteq> 0"
          using False n1 assms(2) by (simp add: eq)
      qed
    qed
  qed
qed

lemma audio_inv_cong:
  "frequencies s' = frequencies s \<Longrightarrow> active_tones s' = active_tones s
   \<Longrightarrow> playing_note s' = playing_note s \<Longrightarrow> audio_inv s' = audio_inv s"
  by (simp add: audio_inv_def tone_stack_def)

lemma inv_stop_all_rec:
  assumes init: "\<And>s. audio_inv s \<Longrightarrow> audio_inv (init s)" and inv: "audio_inv s"
  shows "audio_inv (audio_stop_all_rec init s)"
proof -
  define s1 where "s1 = (if \<not> audio_initialized s then init s else s)"
  have "audio_inv s1" using init inv by (simp add: s1_def)
  then have "length (frequencies s1) = 8" by (simp add: audio_inv_def AUDIO_TONE_STACKSIZE_def)
  then show ?thesis
    unfolding audio_stop_all_rec_def s1_def [symmetric] Let_def
    by (intro audio_invI [where n = 0]) simp_all
qed

lemma inv_play_tone_rec:
  assumes init: "\<And>s. audio_inv s \<Longrightarrow> audio_inv (init s)" and inv: "audio_inv s"
  shows "audio_inv (audio_play_tone_rec init p f s)"
  using init inv by (simp add: play_tone_rec_unfold inv_tone_push)

lemma playing_play_tone_rec:
  assumes "audio_inv s" "audio_initialized s" "audio_config_enable s"
  shows "playing_note (audio_play_tone_rec init p f s)"
  using assms by (simp add: play_tone_rec_unfold inv_tone_push)

lemma inv_stop_tone_rec:
  assumes init: "\<And>s. audio_inv s \<Longrightarrow> audio_inv (init s) \<and> (playing_note s \<longrightarrow> playing_note (init s))"
    and inv: "audio_inv s"
  shows "audio_inv (audio_stop_tone_rec init p f s)"
proof (cases "playing_note s")
  case False
  then show ?thesis using inv by (simp add: stop_tone_rec_unfold)
next
  case True
  define s1 where "s1 = (if \<not> audio_initialized s then init (log_call (Stop_Tone f) s)
                         else log_call (Stop_Tone f) s)"
  have "audio_inv s1 \<and> playing_note s1"
    using init [of "log_call (Stop_Tone f) s"] inv True by (simp add: s1_def)
  then have "audio_inv (tone_remove p \<bar>f\<bar> s1)" by (simp add: inv_tone_remove)
  then show ?thesis using True by (simp add: stop_tone_rec_unfold s1_def)
qed

lemma play_melody_rec_unfold:
  "audio_play_melody_rec init p np n r s =
     (if \<not> audio_config_enable s then s
      else
        let s1 = (if \<not> audio_initialized s then init s else s);
            s2 = (if playing_note s1 then audio_stop_all_rec init s1 else s1);
            s3 = s2\<lparr>playing_melody := True, note_resting := False, notes_pointer := np,
                    notes_count := n, notes_repeat := r, current_note := 0\<rparr>;
            s4 = s3\<lparr>note_length := note_duration s3 0 * tempo_scale s3, note_position := 0\<rparr>
        in audio_play_tone_rec init p (note_freq s3 0) s4)"
  by (simp add: audio_play_melody_rec_def Let_def note_duration_def note_freq_def melody_def
      tempo_scale_def split: melody_ref.split)

lemma inv_play_melody_rec:
  assumes init: "\<And>s. audio_inv s \<Longrightarrow> audio_inv (init s)" and inv: "audio_inv s"
  shows "audio_inv (audio_play_melody_rec init p np n r s)"
proof (cases "audio_config_enable s")
  case False
  then show ?thesis using inv by (simp add: play_melody_rec_unfold)
next
  case True
  define s1 where "s1 = (if \<not> audio_initialized s then init s else s)"
  define s2 where "s2 = (if playing_note s1 then audio_stop_all_rec init s1 else s1)"
  define s3 where "s3 = s2\<lparr>playing_melody := True, note_resting := False, notes_pointer := np,
                    notes_count := n, notes_repeat := r, current_note := 0\<rparr>"
  define s4 where "s4 = s3\<lparr>note_length := note_duration s3 0 * tempo_scale s3, note_position := 0\<rparr>"
  have "audio_inv s1" using init inv by (simp add: s1_def)
  then have "audio_inv s2" using init by (simp add: s2_def inv_stop_all_rec)
  moreover have "audio_inv s4 = audio_inv s2"
    by (rule audio_inv_cong) (simp_all add: s4_def s3_def)
  ultimately have "audio_inv (audio_play_tone_rec init p (note_freq s3 0) s4)"
    using init by (simp add: inv_play_tone_rec)
  moreover have "audio_play_melody_rec init p np n r s
      = audio_play_tone_rec init p (note_freq s3 0) s4"
    unfolding s4_def s3_def s2_def s1_def
    using True by (simp add: play_melody_rec_unfold Let_def)
  ultimately show ?thesis by simp
qed

lemma initialized_stop_all_rec:
  "audio_initialized s \<Longrightarrow> audio_initialized (audio_stop_all_rec init s)"
  by (simp add: audio_stop_all_rec_def Let_def)

lemma enable_stop_all_rec:
  "audio_initialized s \<Longrightarrow>
   audio_config_enable (audio_stop_all_rec init s) = audio_config_enable s"
  by (simp add: audio_stop_all_rec_def Let_def)

lemma playing_play_melody_rec:
  assumes "audio_inv s" "audio_initialized s" "audio_config_enable s"
  shows "playing_note (audio_play_melody_rec (\<lambda>s. s) p np n r s)"
proof -
  define s2 where "s2 = (if playing_note s then audio_stop_all_rec (\<lambda>s. s) s else s)"
  define s3 where "s3 = s2\<lparr>playing_melody := True, note_resting := False, notes_pointer := np,
                    notes_count := n, notes_repeat := r, current_note := 0\<rparr>"
  define s4 where "s4 = s3\<lparr>note_length := note_duration s3 0 * tempo_scale s3, note_position := 0\<rparr>"
  have 2: "audio_inv s2 \<and> audio_initialized s2 \<and> audio_config_enable s2"
    using assms by (simp add: s2_def inv_stop_all_rec initialized_stop_all_rec enable_stop_all_rec)
  moreover have "audio_inv s4 = audio_inv s2"
    by (rule audio_inv_cong) (simp_all add: s4_def s3_def)
  ultimately have "playing_note (audio_play_tone_rec (\<lambda>s. s) p (note_freq s3 0) s4)"
    by (intro playing_play_tone_rec) (simp_all add: s4_def s3_def)
  moreover have "audio_play_melody_rec (\<lambda>s. s) p np n r s
      = audio_play_tone_rec (\<lambda>s. s) p (note_freq s3 0) s4"
    unfolding s4_def s3_def s2_def
    using assms by (simp add: play_melody_rec_unfold Let_def)
  ultimately show ?thesis by simp
qed

lemma inv_audio_init:
  assumes "audio_inv s"
  shows "audio_inv (audio_init p s) \<and> (playing_note s \<longrightarrow> playing_note (audio_init p s))"
proof (cases "audio_initialized s")
  case True
  then show ?thesis using assms by (simp add: audio_init_def)
next
  case False
  define s1 where "s1 = (log_call Driver_Initialize
        (s\<lparr>audio_config_enable := (case eeprom_enable p of Some b \<Rightarrow> b | None \<Rightarrow> True)\<rparr>))
        \<lparr>audio_initialized := True\<rparr>"
  have eq: "audio_init p s =
     (if audio_config_enable s1
      then audio_play_melody_rec (\<lambda>s. s) p (Song (startup_song p))
             (of_nat (length (startup_song p))) False s1
      else s1)"
    using False by (simp add: audio_init_def Let_def s1_def log_call_def split: option.split)
  have "audio_inv s1 = audio_inv s"
    by (rule audio_inv_cong) (simp_all add: s1_def log_call_def)
  then have 1: "audio_inv s1" using assms by simp
  have i1: "audio_initialized s1" by (simp add: s1_def)
  have p1: "playing_note s1 = playing_note s" by (simp add: s1_def log_call_def)
  show ?thesis
  proof (cases "audio_config_enable s1")
    case True
    then show ?thesis using 1 i1
      by (simp add: eq inv_play_melody_rec playing_play_melody_rec)
  next
    case False
    then show ?thesis using 1 p1 by (simp add: eq)
  qed
qed

lemma inv_audio_stop_all: "audio_inv s \<Longrightarrow> audio_inv (audio_stop_all p s)"
  unfolding audio_stop_all_def by (rule inv_stop_all_rec) (simp_all add: inv_audio_init)

lemma inv_audio_play_tone: "audio_inv s \<Longrightarrow> audio_inv (audio_play_tone p f s)"
  unfolding audio_play_tone_def by (rule inv_play_tone_rec) (simp_all add: inv_audio_init)

lemma inv_audio_stop_tone: "audio_inv s \<Longrightarrow> audio_inv (audio_stop_tone p f s)"
  unfolding audio_stop_tone_def by (rule inv_stop_tone_rec) (simp_all add: inv_audio_init)

lemma inv_audio_play_melody: "audio_inv s \<Longrightarrow> audio_inv (audio_play_melody p np n r s)"
  unfolding audio_play_melody_def by (rule inv_play_melody_rec) (simp_all add: inv_audio_init)

lemma audio_inv_updates [simp]:
  "audio_inv (s\<lparr>note_position := a\<rparr>) = audio_inv s"
  "audio_inv (s\<lparr>current_note := b\<rparr>) = audio_inv s"
  "audio_inv (s\<lparr>voices_timer := c\<rparr>) = audio_inv s"
  "audio_inv (s\<lparr>playing_melody := d\<rparr>) = audio_inv s"
  "audio_inv (s\<lparr>note_resting := e\<rparr>) = audio_inv s"
  "audio_inv (s\<lparr>note_length := g\<rparr>) = audio_inv s"
  "audio_inv (s\<lparr>tone_multiplexing_index_shift := h\<rparr>) = audio_inv s"
  "audio_inv (s\<lparr>state_changed := k\<rparr>) = audio_inv s"
  by (simp_all add: audio_inv_def tone_stack_def)

lemma inv_advance_effects: "audio_inv s \<Longrightarrow> audio_inv (snd (advance_effects p g s))"
  by (simp add: advance_effects_def Let_def)

lemma inv_advance_melody: "audio_inv s \<Longrightarrow> audio_inv (snd (advance_melody p step e g s))"
  by (simp add: advance_melody_def Let_def inv_audio_play_tone inv_audio_stop_tone)

lemma inv_audio_advance_state:
  assumes "audio_inv s"
  shows "audio_inv (snd (audio_advance_state p step e s))"
proof -
  obtain g1 s1 where 1: "advance_effects p False s = (g1, s1)" by (cases "advance_effects p False s")
  obtain r2 s2 where 2: "advance_melody p step e g1 s1 = (r2, s2)"
    by (cases "advance_melody p step e g1 s1")
  have "audio_inv s1" using inv_advance_effects [OF assms, of p False] 1 by simp
  then have "audio_inv s2" using inv_advance_melody [of s1 p step e g1] 2 by simp
  then show ?thesis
    by (cases r2) (simp_all add: audio_advance_state_def 1 2 Let_def inv_audio_stop_all)
qed

lemma inv_perform: "audio_inv s \<Longrightarrow> audio_inv (perform p c s)"
  by (cases c)
     (simp_all add: inv_audio_init inv_audio_play_tone inv_audio_stop_tone inv_audio_stop_all
        inv_audio_play_melody inv_audio_advance_state)

lemma inv_run: "audio_inv s \<Longrightarrow> audio_inv (run p cs s)"
  unfolding run_def by (induction cs arbitrary: s) (simp_all add: inv_perform)

lemma inv_play_tones: "audio_inv s \<Longrightarrow> audio_inv (play_tones p fs s)"
  unfolding play_tones_def by (induction fs arbitrary: s) (simp_all add: inv_audio_play_tone)

lemma inv_initial: "audio_inv (audio_initial p)"
  by (simp add: audio_inv_def audio_initial_def tone_stack_def AUDIO_TONE_STACKSIZE_def)

lemma word8_ge1: "(1 \<le> (w :: 8 word)) \<longleftrightarrow> w \<noteq> 0"
  by (simp add: word_le_nat_alt Suc_le_eq unat_gt_0)

text \<open>
  Claim C6. After any sequence of \<^verbatim>\<open>audio_play_tone\<close> calls the number of active
  tones is at most \<^verbatim>\<open>AUDIO_TONE_STACKSIZE\<close> and the active slots hold no frequency
  twice. This holds from the initial state (where audio is still disabled and every call
  returns at once) and from every state that satisfies the stack invariant, such as the
  state after initialisation.
\<close>

theorem stack_capacity_invariant:
  "unat (active_tones (play_tones p fs (audio_initial p))) \<le> AUDIO_TONE_STACKSIZE
   \<and> distinct (tone_stack (play_tones p fs (audio_initial p)))
   \<and> (audio_inv s \<longrightarrow>
        unat (active_tones (play_tones p fs s)) \<le> AUDIO_TONE_STACKSIZE
        \<and> distinct (tone_stack (play_tones p fs s)))"
  using inv_play_tones [OF inv_initial, of p fs p] inv_play_tones [of s p fs]
  by (simp add: audio_inv_def)

theorem stack_capacity_invariant_witness:
  "audio_inv audio_ready
   \<and> tone_stack (play_tones demo_platform [1, 2, 3, -2, 4, 5, 6, 7, 8, 9, 3] audio_ready)
       = [2, 4, 5, 6, 7, 8, 9, 3]
   \<and> unat (active_tones
        (play_tones demo_platform [1, 2, 3, -2, 4, 5, 6, 7, 8, 9, 3] audio_ready)) \<le> 8
   \<and> distinct (tone_stack
        (play_tones demo_platform [1, 2, 3, -2, 4, 5, 6, 7, 8, 9, 3] audio_ready))"
proof -
  have h: "audio_inv audio_ready" by code_simp
  have v: "tone_stack (play_tones demo_platform [1, 2, 3, -2, 4, 5, 6, 7, 8, 9, 3] audio_ready)
       = [2, 4, 5, 6, 7, 8, 9, 3]" by code_simp
  show ?thesis
    using h v stack_capacity_invariant
      [of demo_platform "[1, 2, 3, -2, 4, 5, 6, 7, 8, 9, 3]" audio_ready]
    by (simp add: AUDIO_TONE_STACKSIZE_def)
qed

subsection \<open>The counter and the \<^verbatim>\<open>playing_note\<close> flag\<close>

lemma stop_tone_count:
  assumes "audio_inv s" "audio_initialized s"
  shows "unat (active_tones (audio_stop_tone p f s))
       = unat (active_tones s)
         - (if playing_note s \<and> find_down AUDIO_TONE_STACKSIZE \<bar>f\<bar> (frequencies s) \<noteq> None
            then 1 else 0)"
proof (cases "playing_note s")
  case False
  then show ?thesis by (simp add: audio_stop_tone_def stop_tone_rec_unfold)
next
  case True
  with assms have nz: "active_tones s \<noteq> 0" by (simp add: audio_inv_def)
  from assms have len: "length (frequencies (log_call (Stop_Tone f) s)) = AUDIO_TONE_STACKSIZE"
    by (simp add: audio_inv_def)
  show ?thesis
  proof (cases "find_down AUDIO_TONE_STACKSIZE \<bar>f\<bar> (frequencies s)")
    case None
    then show ?thesis using True assms
      by (simp add: audio_stop_tone_def stop_tone_rec_unfold tone_remove_missing)
  next
    case (Some i)
    then have "find_down AUDIO_TONE_STACKSIZE \<bar>f\<bar> (frequencies (log_call (Stop_Tone f) s))
        = Some i"
      by simp
    from tone_remove_found [OF this len, of p] show ?thesis using True assms Some nz
      by (simp add: audio_stop_tone_def stop_tone_rec_unfold unat8_pred)
  qed
qed

text \<open>
  Claim C10. \<^verbatim>\<open>playing_note\<close> is set exactly when \<^verbatim>\<open>active_tones >= 1\<close>: in the
  initial state, after every sequence of operations from it (\<^verbatim>\<open>audio_init\<close>,
  \<^verbatim>\<open>audio_play_tone\<close>, \<^verbatim>\<open>audio_stop_tone\<close>, \<^verbatim>\<open>audio_stop_all\<close>,
  \<^verbatim>\<open>audio_play_melody\<close>, \<^verbatim>\<open>audio_advance_state\<close>), and each operation keeps the
  invariant that contains it. \<^verbatim>\<open>audio_stop_tone\<close> takes one from the counter only when
  \<^verbatim>\<open>playing_note\<close> is set and one of the eight slots matches, and then the counter is
  at least 1, so it never wraps below zero.
\<close>

theorem playing_note_iff_active:
  "(playing_note (audio_initial p) \<longleftrightarrow> 1 \<le> active_tones (audio_initial p))
   \<and> (playing_note (run p cs (audio_initial p))
        \<longleftrightarrow> 1 \<le> active_tones (run p cs (audio_initial p)))
   \<and> (audio_inv s \<longrightarrow>
        audio_inv (perform p c s)
        \<and> (playing_note (perform p c s) \<longleftrightarrow> 1 \<le> active_tones (perform p c s)))
   \<and> (audio_inv s \<and> audio_initialized s \<longrightarrow>
        (playing_note s \<longrightarrow> 1 \<le> unat (active_tones s))
        \<and> unat (active_tones (audio_stop_tone p f s))
            = unat (active_tones s)
              - (if playing_note s
                    \<and> find_down AUDIO_TONE_STACKSIZE \<bar>f\<bar> (frequencies s) \<noteq> None
                 then 1 else 0))"
proof -
  have a: "audio_inv t \<Longrightarrow> playing_note t \<longleftrightarrow> 1 \<le> active_tones t" for t
    by (simp add: audio_inv_def word8_ge1)
  have b: "audio_inv t \<Longrightarrow> playing_note t \<Longrightarrow> 1 \<le> unat (active_tones t)" for t
    by (simp add: audio_inv_def Suc_le_eq unat_gt_0)
  show ?thesis
    using a [OF inv_initial, of p] a [OF inv_run [OF inv_initial], of p cs p]
      a [OF inv_perform, of s p c] inv_perform [of s p c] b [of s] stop_tone_count [of s p f]
    by blast
qed

theorem playing_note_iff_active_witness:
  "audio_inv (play_tones demo_platform [440, 880] audio_ready)
   \<and> audio_initialized (play_tones demo_platform [440, 880] audio_ready)
   \<and> playing_note (play_tones demo_platform [440, 880] audio_ready)
   \<and> unat (active_tones (play_tones demo_platform [440, 880] audio_ready)) = 2
   \<and> audio_inv (perform demo_platform (Op_Stop_Tone 440)
        (play_tones demo_platform [440, 880] audio_ready))
   \<and> unat (active_tones (audio_stop_tone demo_platform 440
        (play_tones demo_platform [440, 880] audio_ready))) = 1"
proof -
  have h: "audio_inv (play_tones demo_platform [440, 880] audio_ready)"
    "audio_initialized (play_tones demo_platform [440, 880] audio_ready)"
    "playing_note (play_tones demo_platform [440, 880] audio_ready)"
    "unat (active_tones (play_tones demo_platform [440, 880] audio_ready)) = 2"
    "find_down AUDIO_TONE_STACKSIZE \<bar>440\<bar>
       (frequencies (play_tones demo_platform [440, 880] audio_ready)) = Some 0"
    by code_simp+
  show ?thesis
    using h playing_note_iff_active
      [of demo_platform "[]" "play_tones demo_platform [440, 880] audio_ready"
          "Op_Stop_Tone 440" 440]
    by simp
qed

subsection \<open>Requesting a tone that is already on the stack\<close>

lemma remove1_nth_distinct:
  "distinct xs \<Longrightarrow> i < length xs \<Longrightarrow> remove1 (xs ! i) xs = take i xs @ drop (Suc i) xs"
proof (induction xs arbitrary: i)
  case Nil
  then show ?case by simp
next
  case (Cons x xs)
  then show ?case by (cases i) auto
qed

lemma play_tone_present:
  assumes inv: "audio_inv s" and en: "audio_config_enable s" and ini: "audio_initialized s"
    and mem: "\<bar>f\<bar> \<in> set (tone_stack s)"
  shows "audio_play_tone p f s =
     s\<lparr>frequencies := remove1 \<bar>f\<bar> (tone_stack s) @ [\<bar>f\<bar>]
                        @ drop (unat (active_tones s)) (frequencies s),
       calls := calls s @ [Play_Tone f]\<rparr>"
proof -
  let ?s = "log_call (Play_Tone f) s"
  let ?n = "unat (active_tones s)" and ?fr = "frequencies s"
  from inv have len: "length ?fr = 8" and n8: "?n \<le> 8" and dist: "distinct (tone_stack s)"
    by (simp_all add: audio_inv_def AUDIO_TONE_STACKSIZE_def)
  from mem obtain i where "find_down ?n \<bar>f\<bar> ?fr = Some i"
    using n8 len by (cases "find_down ?n \<bar>f\<bar> ?fr")
      (auto simp: find_down_None tone_stack_def in_set_conv_nth)
  then have fd: "find_down (unat (active_tones ?s)) \<bar>f\<bar> (frequencies ?s) = Some i" by simp
  then have i: "i < ?n" "?fr ! i = \<bar>f\<bar>" by (simp_all add: find_down_Some)
  have "remove1 (tone_stack s ! i) (tone_stack s) = take i (tone_stack s) @ drop (Suc i) (tone_stack s)"
    using dist i len n8 by (intro remove1_nth_distinct) (simp_all add: tone_stack_def)
  then have rm: "remove1 \<bar>f\<bar> (tone_stack s) = take i ?fr @ drop (Suc i) (tone_stack s)"
    using i by (simp add: tone_stack_def min_def)
  have ts: "tone_stack ?s = tone_stack s" by (simp add: tone_stack_def)
  have "tone_push p \<bar>f\<bar> ?s = ?s\<lparr>frequencies := take i (frequencies ?s) @ drop (Suc i) (tone_stack ?s) @ [\<bar>f\<bar>]
                        @ drop (unat (active_tones ?s)) (frequencies ?s)\<rparr>"
    using fd len n8 by (intro tone_push_found) simp_all
  then show ?thesis using en ini
    by (simp add: audio_play_tone_def play_tone_rec_unfold rm ts) (simp add: log_call_def)
qed

text \<open>
  Claim C1, as stated, fails: with tones 1 and 2 on the stack (1 the older one), a
  second \<^verbatim>\<open>audio_play_tone(1)\<close> moves 1 above 2, so the order of the stack changes.
\<close>

theorem play_tone_present_reorders:
  "1 \<in> set (tone_stack two_tones)
   \<and> tone_stack two_tones = [1, 2]
   \<and> tone_stack (audio_play_tone demo_platform 1 two_tones) = [2, 1]
   \<and> frequencies (audio_play_tone demo_platform 1 two_tones) \<noteq> frequencies two_tones"
  by code_simp

text \<open>
  Claim C1, amended. With audio enabled and initialised, \<^verbatim>\<open>audio_play_tone(f)\<close> for a
  frequency whose absolute value is already on the stack moves that entry to the top and
  keeps the other entries in their order; the slots above the stack are untouched.
  Nothing else changes: the stack size, the active-tone count, \<^verbatim>\<open>state_changed\<close> and
  the playing flags stay as they are, and no driver function is called (the log grows by
  the request only).
\<close>

theorem play_tone_present_moves_to_top:
  assumes "audio_inv s" "audio_config_enable s" "audio_initialized s"
    and "\<bar>f\<bar> \<in> set (tone_stack s)"
  shows "audio_play_tone p f s =
           s\<lparr>frequencies := remove1 \<bar>f\<bar> (tone_stack s) @ [\<bar>f\<bar>]
                              @ drop (unat (active_tones s)) (frequencies s),
             calls := calls s @ [Play_Tone f]\<rparr>
         \<and> tone_stack (audio_play_tone p f s) = remove1 \<bar>f\<bar> (tone_stack s) @ [\<bar>f\<bar>]"
proof -
  from assms(1) have "unat (active_tones s) \<le> length (frequencies s)"
    by (simp add: audio_inv_def)
  moreover have "length (remove1 \<bar>f\<bar> (tone_stack s)) = length (tone_stack s) - 1"
    using assms(4) by (simp add: length_remove1)
  moreover have "0 < length (tone_stack s)" using assms(4) by (cases "tone_stack s") auto
  ultimately have "take (unat (active_tones s))
      (remove1 \<bar>f\<bar> (tone_stack s) @ [\<bar>f\<bar>] @ drop (unat (active_tones s)) (frequencies s))
      = remove1 \<bar>f\<bar> (tone_stack s) @ [\<bar>f\<bar>]"
    by (simp add: tone_stack_def min_def)
  then show ?thesis
    by (simp add: play_tone_present [OF assms] tone_stack_def)
qed

theorem play_tone_present_moves_to_top_witness:
  "audio_inv two_tones \<and> audio_config_enable two_tones \<and> audio_initialized two_tones
   \<and> \<bar>1\<bar> \<in> set (tone_stack two_tones)
   \<and> tone_stack two_tones = [1, 2]
   \<and> tone_stack (audio_play_tone demo_platform 1 two_tones) = [2, 1]
   \<and> active_tones (audio_play_tone demo_platform 1 two_tones) = active_tones two_tones
   \<and> calls (audio_play_tone demo_platform 1 two_tones) = calls two_tones @ [Play_Tone 1]"
proof -
  have h: "audio_inv two_tones" "audio_config_enable two_tones" "audio_initialized two_tones"
    "\<bar>1\<bar> \<in> set (tone_stack two_tones)"
    by code_simp+
  have v: "tone_stack two_tones = [1, 2]" by code_simp
  note t = play_tone_present_moves_to_top [OF h, of demo_platform]
  have a: "active_tones (audio_play_tone demo_platform 1 two_tones) = active_tones two_tones"
    and c: "calls (audio_play_tone demo_platform 1 two_tones) = calls two_tones @ [Play_Tone 1]"
    by (simp_all add: conjunct1 [OF t])
  have b: "tone_stack (audio_play_tone demo_platform 1 two_tones) = [2, 1]"
    using conjunct2 [OF t] v by simp
  show ?thesis using h v a b c by simp
qed

subsection \<open>Requesting a tone when the stack is full\<close>

lemma play_tone_absent:
  assumes inv: "audio_inv s" and en: "audio_config_enable s" and ini: "audio_initialized s"
    and mem: "\<bar>f\<bar> \<notin> set (tone_stack s)"
  shows "audio_play_tone p f s =
     (if unat (active_tones s) < AUDIO_TONE_STACKSIZE
      then (if active_tones s = 0 then log_call Driver_Start else (\<lambda>s. s))
             (s\<lparr>calls := calls s @ [Play_Tone f], active_tones := active_tones s + 1,
                state_changed := True, playing_note := True,
                frequencies := (frequencies s)[unat (active_tones s) := \<bar>f\<bar>],
                voices_timer := timer_read p\<rparr>)
      else s\<lparr>calls := calls s @ [Play_Tone f], active_tones := 8, state_changed := True,
             playing_note := True, frequencies := tl (frequencies s) @ [\<bar>f\<bar>],
             voices_timer := timer_read p\<rparr>)"
proof -
  let ?s = "log_call (Play_Tone f) s"
  let ?n = "unat (active_tones s)" and ?fr = "frequencies s"
  from inv have len: "length ?fr = 8" and n8: "?n \<le> 8"
    by (simp_all add: audio_inv_def AUDIO_TONE_STACKSIZE_def)
  have "find_down ?n \<bar>f\<bar> ?fr = None"
    using mem n8 len by (auto simp: find_down_None tone_stack_def in_set_conv_nth)
  then have fd: "find_down (unat (active_tones ?s)) \<bar>f\<bar> (frequencies ?s) = None" by simp
  have eq: "audio_play_tone p f s = tone_push p \<bar>f\<bar> ?s"
    using en ini by (simp add: audio_play_tone_def play_tone_rec_unfold)
  show ?thesis
  proof (cases "?n < AUDIO_TONE_STACKSIZE")
    case True
    then have "unat (active_tones ?s) < AUDIO_TONE_STACKSIZE" by simp
    from tone_push_new [OF fd this, of p] True show ?thesis
      by (simp add: eq) (simp add: log_call_def)
  next
    case False
    then have "unat (active_tones ?s) = AUDIO_TONE_STACKSIZE"
      using n8 by (simp add: AUDIO_TONE_STACKSIZE_def)
    moreover have "length (frequencies ?s) = AUDIO_TONE_STACKSIZE"
      using len by (simp add: AUDIO_TONE_STACKSIZE_def)
    ultimately show ?thesis using tone_push_evict [OF fd, of p] False
      by (simp add: eq) (simp add: log_call_def)
  qed
qed

lemma enable_play_tone:
  "audio_initialized s \<Longrightarrow> audio_config_enable (audio_play_tone p f s) = audio_config_enable s"
  by (simp add: audio_play_tone_def play_tone_rec_unfold tone_push_def Let_def log_call_def
      split: option.split)

lemma initialized_play_tone:
  "audio_initialized s \<Longrightarrow> audio_initialized (audio_play_tone p f s)"
  by (simp add: audio_play_tone_def play_tone_rec_unfold tone_push_def Let_def log_call_def
      split: option.split)

lemma play_tones_snoc: "play_tones p (fs @ [f]) s = audio_play_tone p f (play_tones p fs s)"
  by (simp add: play_tones_def)

lemma play_tones_fill:
  assumes "audio_inv s" "audio_config_enable s" "audio_initialized s" "active_tones s = 0"
  shows "length fs \<le> AUDIO_TONE_STACKSIZE \<Longrightarrow> distinct (map abs fs) \<Longrightarrow>
     tone_stack (play_tones p fs s) = map abs fs
     \<and> unat (active_tones (play_tones p fs s)) = length fs
     \<and> audio_inv (play_tones p fs s)
     \<and> audio_config_enable (play_tones p fs s)
     \<and> audio_initialized (play_tones p fs s)"
proof (induction fs rule: rev_induct)
  case Nil
  then show ?case using assms by (simp add: play_tones_def tone_stack_def)
next
  case (snoc f fs)
  let ?t = "play_tones p fs s"
  from snoc have IH: "tone_stack ?t = map abs fs" "unat (active_tones ?t) = length fs"
    "audio_inv ?t" "audio_config_enable ?t" "audio_initialized ?t"
    by simp_all
  from snoc.prems have nm: "\<bar>f\<bar> \<notin> set (tone_stack ?t)" and lt: "length fs < AUDIO_TONE_STACKSIZE"
    by (auto simp: IH(1))
  from IH(3) have len: "length (frequencies ?t) = 8"
    by (simp add: audio_inv_def AUDIO_TONE_STACKSIZE_def)
  have un: "unat (active_tones ?t + 1) = Suc (length fs)"
    using lt IH(2) by (simp add: unat8_Suc AUDIO_TONE_STACKSIZE_def)
  note eq = play_tone_absent [OF IH(3,4,5) nm, of p]
  have fr: "frequencies (audio_play_tone p f ?t) = (frequencies ?t)[length fs := \<bar>f\<bar>]"
    and at: "active_tones (audio_play_tone p f ?t) = active_tones ?t + 1"
    using lt IH(2) by (simp_all add: eq)
  have "take (Suc (length fs)) ((frequencies ?t)[length fs := \<bar>f\<bar>])
      = take (length fs) (frequencies ?t) @ [\<bar>f\<bar>]"
    using lt len by (simp add: take_Suc_conv_app_nth AUDIO_TONE_STACKSIZE_def)
  then have "tone_stack (audio_play_tone p f ?t) = map abs (fs @ [f])"
    using IH(1,2) by (simp add: tone_stack_def fr at un)
  moreover have "unat (active_tones (audio_play_tone p f ?t)) = length (fs @ [f])"
    by (simp add: at un)
  ultimately show ?case
    using IH by (simp add: play_tones_snoc inv_audio_play_tone enable_play_tone initialized_play_tone)
qed

text \<open>
  Claim C7. On a full stack, \<^verbatim>\<open>audio_play_tone\<close> of a frequency that is not on it
  drops the entry at index 0, moves the other seven down by one and stores the new
  frequency at the top; the count stays at \<^verbatim>\<open>AUDIO_TONE_STACKSIZE\<close>. Hence requesting
  \<^verbatim>\<open>AUDIO_TONE_STACKSIZE + 1\<close> frequencies with distinct absolute values on an empty
  stack leaves all but the first, in the order of the requests.
\<close>

theorem eviction_order:
  "(audio_inv s \<and> audio_config_enable s \<and> audio_initialized s
      \<and> unat (active_tones s) = AUDIO_TONE_STACKSIZE \<and> \<bar>f\<bar> \<notin> set (tone_stack s)
     \<longrightarrow> tone_stack (audio_play_tone p f s) = tl (tone_stack s) @ [\<bar>f\<bar>]
         \<and> unat (active_tones (audio_play_tone p f s)) = AUDIO_TONE_STACKSIZE)
   \<and> (audio_inv s \<and> audio_config_enable s \<and> audio_initialized s \<and> active_tones s = 0
      \<and> length fs = AUDIO_TONE_STACKSIZE + 1 \<and> distinct (map abs fs)
     \<longrightarrow> tone_stack (play_tones p fs s) = map abs (tl fs))"
proof (intro conjI impI)
  assume a: "audio_inv s \<and> audio_config_enable s \<and> audio_initialized s
      \<and> unat (active_tones s) = AUDIO_TONE_STACKSIZE \<and> \<bar>f\<bar> \<notin> set (tone_stack s)"
  then have len: "length (frequencies s) = 8"
    by (simp add: audio_inv_def AUDIO_TONE_STACKSIZE_def)
  from a have b: "audio_inv s" "audio_config_enable s" "audio_initialized s"
    "\<bar>f\<bar> \<notin> set (tone_stack s)" and n: "unat (active_tones s) = 8"
    by (simp_all add: AUDIO_TONE_STACKSIZE_def)
  note eq = play_tone_absent [OF b, of p]
  from n len show "tone_stack (audio_play_tone p f s) = tl (tone_stack s) @ [\<bar>f\<bar>]"
    by (simp add: eq tone_stack_def AUDIO_TONE_STACKSIZE_def)
  from n show "unat (active_tones (audio_play_tone p f s)) = AUDIO_TONE_STACKSIZE"
    by (simp add: eq AUDIO_TONE_STACKSIZE_def)
next
  assume a: "audio_inv s \<and> audio_config_enable s \<and> audio_initialized s \<and> active_tones s = 0
      \<and> length fs = AUDIO_TONE_STACKSIZE + 1 \<and> distinct (map abs fs)"
  then obtain gs g where fs: "fs = gs @ [g]" by (cases fs rule: rev_cases) auto
  with a have gs: "length gs \<le> AUDIO_TONE_STACKSIZE" "distinct (map abs gs)"
    "length gs = AUDIO_TONE_STACKSIZE" "\<bar>g\<bar> \<notin> set (map abs gs)"
    by auto
  let ?t = "play_tones p gs s"
  from a play_tones_fill [of s gs p, OF _ _ _ _ gs(1,2)]
  have t: "tone_stack ?t = map abs gs" "unat (active_tones ?t) = length gs"
    "audio_inv ?t" "audio_config_enable ?t" "audio_initialized ?t"
    by simp_all
  from t(3) have len: "length (frequencies ?t) = 8"
    by (simp add: audio_inv_def AUDIO_TONE_STACKSIZE_def)
  have nm: "\<bar>g\<bar> \<notin> set (tone_stack ?t)" using gs(4) t(1) by simp
  have "tone_stack (audio_play_tone p g ?t) = tl (tone_stack ?t) @ [\<bar>g\<bar>]"
    using t(2) gs(3) len
    by (simp add: play_tone_absent [OF t(3,4,5) nm] tone_stack_def AUDIO_TONE_STACKSIZE_def)
  also have "\<dots> = tl (map abs gs) @ [\<bar>g\<bar>]" by (simp only: t(1))
  also have "\<dots> = map abs (tl fs)"
    using gs(3) unfolding fs by (cases gs) (simp_all add: AUDIO_TONE_STACKSIZE_def)
  finally show "tone_stack (play_tones p fs s) = map abs (tl fs)"
    by (simp add: fs play_tones_snoc)
qed

theorem eviction_order_witness:
  "tone_stack (play_tones demo_platform [1, 2, 3, 4, 5, 6, 7, 8] audio_ready)
     = [1, 2, 3, 4, 5, 6, 7, 8]
   \<and> tone_stack (audio_play_tone demo_platform (-9)
        (play_tones demo_platform [1, 2, 3, 4, 5, 6, 7, 8] audio_ready))
     = [2, 3, 4, 5, 6, 7, 8, 9]
   \<and> tone_stack (play_tones demo_platform [1, 2, 3, 4, 5, 6, 7, 8, -9] audio_ready)
     = [2, 3, 4, 5, 6, 7, 8, 9]"
proof -
  let ?full = "play_tones demo_platform [1, 2, 3, 4, 5, 6, 7, 8] audio_ready"
  have h1: "audio_inv ?full \<and> audio_config_enable ?full \<and> audio_initialized ?full
      \<and> unat (active_tones ?full) = AUDIO_TONE_STACKSIZE \<and> \<bar>-9\<bar> \<notin> set (tone_stack ?full)"
    by code_simp
  have h2: "audio_inv audio_ready \<and> audio_config_enable audio_ready
      \<and> audio_initialized audio_ready \<and> active_tones audio_ready = 0
      \<and> length [1, 2, 3, 4, 5, 6, 7, 8, -9 :: real] = AUDIO_TONE_STACKSIZE + 1
      \<and> distinct (map abs [1, 2, 3, 4, 5, 6, 7, 8, -9 :: real])"
    by code_simp
  have v: "tone_stack ?full = [1, 2, 3, 4, 5, 6, 7, 8]" by code_simp
  show ?thesis
    using h1 h2 v
      eviction_order [where s = ?full and f = "-9" and p = demo_platform and fs = "[]"]
      eviction_order [where s = audio_ready and f = 0 and p = demo_platform
        and fs = "[1, 2, 3, 4, 5, 6, 7, 8, -9]"]
    by simp
qed

subsection \<open>The stages of a tick\<close>

lemma melody_updates [simp]:
  "melody (s\<lparr>active_tones := x0\<rparr>) = melody s"
  "melody (s\<lparr>frequencies := x1\<rparr>) = melody s"
  "melody (s\<lparr>playing_melody := x2\<rparr>) = melody s"
  "melody (s\<lparr>playing_note := x3\<rparr>) = melody s"
  "melody (s\<lparr>state_changed := x4\<rparr>) = melody s"
  "melody (s\<lparr>notes_count := x5\<rparr>) = melody s"
  "melody (s\<lparr>notes_repeat := x6\<rparr>) = melody s"
  "melody (s\<lparr>note_length := x7\<rparr>) = melody s"
  "melody (s\<lparr>note_tempo := x8\<rparr>) = melody s"
  "melody (s\<lparr>current_note := x9\<rparr>) = melody s"
  "melody (s\<lparr>note_position := x10\<rparr>) = melody s"
  "melody (s\<lparr>note_resting := x11\<rparr>) = melody s"
  "melody (s\<lparr>tone_multiplexing_rate := x12\<rparr>) = melody s"
  "melody (s\<lparr>tone_multiplexing_index_shift := x13\<rparr>) = melody s"
  "melody (s\<lparr>voices_timer := x14\<rparr>) = melody s"
  "melody (s\<lparr>audio_initialized := x15\<rparr>) = melody s"
  "melody (s\<lparr>audio_config_enable := x16\<rparr>) = melody s"
  "melody (s\<lparr>calls := x17\<rparr>) = melody s"
  by (simp_all add: melody_def split: melody_ref.split)

lemma note_freq_updates [simp]:
  "note_freq (s\<lparr>active_tones := x0\<rparr>) i = note_freq s i"
  "note_freq (s\<lparr>frequencies := x1\<rparr>) i = note_freq s i"
  "note_freq (s\<lparr>playing_melody := x2\<rparr>) i = note_freq s i"
  "note_freq (s\<lparr>playing_note := x3\<rparr>) i = note_freq s i"
  "note_freq (s\<lparr>state_changed := x4\<rparr>) i = note_freq s i"
  "note_freq (s\<lparr>notes_count := x5\<rparr>) i = note_freq s i"
  "note_freq (s\<lparr>notes_repeat := x6\<rparr>) i = note_freq s i"
  "note_freq (s\<lparr>note_length := x7\<rparr>) i = note_freq s i"
  "note_freq (s\<lparr>note_tempo := x8\<rparr>) i = note_freq s i"
  "note_freq (s\<lparr>current_note := x9\<rparr>) i = note_freq s i"
  "note_freq (s\<lparr>note_position := x10\<rparr>) i = note_freq s i"
  "note_freq (s\<lparr>note_resting := x11\<rparr>) i = note_freq s i"
  "note_freq (s\<lparr>tone_multiplexing_rate := x12\<rparr>) i = note_freq s i"
  "note_freq (s\<lparr>tone_multiplexing_index_shift := x13\<rparr>) i = note_freq s i"
  "note_freq (s\<lparr>voices_timer := x14\<rparr>) i = note_freq s i"
  "note_freq (s\<lparr>audio_initialized := x15\<rparr>) i = note_freq s i"
  "note_freq (s\<lparr>audio_config_enable := x16\<rparr>) i = note_freq s i"
  "note_freq (s\<lparr>calls := x17\<rparr>) i = note_freq s i"
  by (simp_all add: note_freq_def)

lemma note_duration_updates [simp]:
  "note_duration (s\<lparr>active_tones := x0\<rparr>) i = note_duration s i"
  "note_duration (s\<lparr>frequencies := x1\<rparr>) i = note_duration s i"
  "note_duration (s\<lparr>playing_melody := x2\<rparr>) i = note_duration s i"
  "note_duration (s\<lparr>playing_note := x3\<rparr>) i = note_duration s i"
  "note_duration (s\<lparr>state_changed := x4\<rparr>) i = note_duration s i"
  "note_duration (s\<lparr>notes_count := x5\<rparr>) i = note_duration s i"
  "note_duration (s\<lparr>notes_repeat := x6\<rparr>) i = note_duration s i"
  "note_duration (s\<lparr>note_length := x7\<rparr>) i = note_duration s i"
  "note_duration (s\<lparr>note_tempo := x8\<rparr>) i = note_duration s i"
  "note_duration (s\<lparr>current_note := x9\<rparr>) i = note_duration s i"
  "note_duration (s\<lparr>note_position := x10\<rparr>) i = note_duration s i"
  "note_duration (s\<lparr>note_resting := x11\<rparr>) i = note_duration s i"
  "note_duration (s\<lparr>tone_multiplexing_rate := x12\<rparr>) i = note_duration s i"
  "note_duration (s\<lparr>tone_multiplexing_index_shift := x13\<rparr>) i = note_duration s i"
  "note_duration (s\<lparr>voices_timer := x14\<rparr>) i = note_duration s i"
  "note_duration (s\<lparr>audio_initialized := x15\<rparr>) i = note_duration s i"
  "note_duration (s\<lparr>audio_config_enable := x16\<rparr>) i = note_duration s i"
  "note_duration (s\<lparr>calls := x17\<rparr>) i = note_duration s i"
  by (simp_all add: note_duration_def)

lemma melody_log_call [simp]:
  "melody (log_call c s) = melody s"
  "note_freq (log_call c s) i = note_freq s i"
  "note_duration (log_call c s) i = note_duration s i"
  by (simp_all add: log_call_def)

lemma snd_advance_effects:
  "snd (advance_effects p g s) =
     (if playing_note s \<and> AUDIO_ENABLE_TONE_MULTIPLEXING p
      then s\<lparr>tone_multiplexing_index_shift :=
              word_of_int
                (c_rem (truncate (real (unat (timer_read p)) / tone_multiplexing_rate s))
                       (min (AUDIO_MAX_SIMULTANEOUS_TONES p) (uint (active_tones s))))\<rparr>
      else s)"
  by (simp add: advance_effects_def Let_def)

lemma advance_effects_fields [simp]:
  "playing_melody (snd (advance_effects p g s)) = playing_melody s"
  "playing_note (snd (advance_effects p g s)) = playing_note s"
  "note_position (snd (advance_effects p g s)) = note_position s"
  "note_length (snd (advance_effects p g s)) = note_length s"
  "current_note (snd (advance_effects p g s)) = current_note s"
  "notes_count (snd (advance_effects p g s)) = notes_count s"
  "notes_repeat (snd (advance_effects p g s)) = notes_repeat s"
  "state_changed (snd (advance_effects p g s)) = state_changed s"
  "melody (snd (advance_effects p g s)) = melody s"
  "note_freq (snd (advance_effects p g s)) i = note_freq s i"
  by (simp_all add: snd_advance_effects)

lemma melody_ends_effects [simp]:
  "melody_ends step e (snd (advance_effects p g s)) = melody_ends step e s"
  by (simp add: melody_ends_def)

lemma advance_melody_end:
  assumes "melody_ends step e s"
  shows "advance_melody p step e g s =
    (Inl True, audio_stop_tone p (note_freq s (current_note s))
       (s\<lparr>note_position := note_position s + step, current_note := current_note s + 1,
          voices_timer := timer_read p, playing_melody := False\<rparr>))"
  using assms
  by (simp add: advance_melody_def melody_ends_def Let_def)

lemma advance_melody_continue:
  assumes "\<not> melody_ends step e s"
  shows "\<exists>g' s'. advance_melody p step e g s = (Inr g', s')"
  using assms
  by (auto simp: advance_melody_def melody_ends_def Let_def)

lemma changed_tone_push: "state_changed s \<Longrightarrow> state_changed (tone_push p f s)"
  by (simp add: tone_push_def Let_def log_call_def split: option.split)

lemma changed_tone_remove: "state_changed s \<Longrightarrow> state_changed (tone_remove p f s)"
  by (simp add: tone_remove_def Let_def log_call_def split: option.split)

lemma changed_stop_all_rec:
  "(\<And>s. state_changed s \<Longrightarrow> state_changed (init s)) \<Longrightarrow> state_changed s
   \<Longrightarrow> state_changed (audio_stop_all_rec init s)"
  by (simp add: audio_stop_all_rec_def Let_def log_call_def)

lemma changed_play_tone_rec:
  "(\<And>s. state_changed s \<Longrightarrow> state_changed (init s)) \<Longrightarrow> state_changed s
   \<Longrightarrow> state_changed (audio_play_tone_rec init p f s)"
  by (simp add: play_tone_rec_unfold changed_tone_push)

lemma changed_stop_tone_rec:
  "(\<And>s. state_changed s \<Longrightarrow> state_changed (init s)) \<Longrightarrow> state_changed s
   \<Longrightarrow> state_changed (audio_stop_tone_rec init p f s)"
  by (simp add: stop_tone_rec_unfold changed_tone_remove)

lemma changed_play_melody_rec:
  assumes "\<And>s. state_changed s \<Longrightarrow> state_changed (init s)" "state_changed s"
  shows "state_changed (audio_play_melody_rec init p np n r s)"
  using assms
  by (simp add: play_melody_rec_unfold Let_def changed_play_tone_rec changed_stop_all_rec)

lemma changed_audio_init: "state_changed s \<Longrightarrow> state_changed (audio_init p s)"
  by (simp add: audio_init_def Let_def log_call_def changed_play_melody_rec split: option.split)

lemma changed_advance_melody:
  "state_changed s \<Longrightarrow> state_changed (snd (advance_melody p step e g s))"
  by (simp add: advance_melody_def Let_def audio_play_tone_def audio_stop_tone_def
      changed_play_tone_rec changed_stop_tone_rec changed_audio_init)

lemma latch_clear_id: "\<not> state_changed t \<Longrightarrow> t\<lparr>state_changed := False\<rparr> = t"
  by (cases t) simp

lemma advance_effects_eq:
  "advance_effects p False s =
     (playing_note s \<and> (AUDIO_ENABLE_TONE_MULTIPLEXING p \<or> vibrato p \<or> glissando p),
      if playing_note s \<and> AUDIO_ENABLE_TONE_MULTIPLEXING p
      then s\<lparr>tone_multiplexing_index_shift :=
              word_of_int
                (c_rem (truncate (real (unat (timer_read p)) / tone_multiplexing_rate s))
                       (min (AUDIO_MAX_SIMULTANEOUS_TONES p) (uint (active_tones s))))\<rparr>
      else s)"
  by (simp add: advance_effects_def Let_def)

lemma advance_melody_idle:
  "\<not> playing_melody s \<Longrightarrow> advance_melody p step e g s = (Inr g, s)"
  by (simp add: advance_melody_def)

lemma advance_melody_wait:
  "playing_melody s \<Longrightarrow> \<not> note_length s * e \<le> real (unat (note_position s + step))
   \<Longrightarrow> advance_melody p step e g s = (Inr False, s\<lparr>note_position := note_position s + step\<rparr>)"
  by (simp add: advance_melody_def Let_def)

lemma advance_melody_next:
  assumes "playing_melody s" "note_length s * e \<le> real (unat (note_position s + step))"
    and "\<not> melody_ends step e s"
  shows "advance_melody p step e g s =
     (Inr True,
      let previous_note = current_note s;
          s = s\<lparr>note_position := note_position s + step\<rparr>;
          s = s\<lparr>current_note := current_note s + 1\<rparr>;
          s = s\<lparr>voices_timer := timer_read p\<rparr>;
          s = (if current_note s \<ge> notes_count s then s\<lparr>current_note := 0\<rparr> else s)
      in if \<not> note_resting s \<and> note_freq s previous_note = note_freq s (current_note s)
         then
           let s = s\<lparr>note_resting := True\<rparr>;
               s = s\<lparr>current_note := previous_note\<rparr>;
               s = audio_play_tone p 0 s;
               s = audio_stop_tone p (note_freq s previous_note) s;
               s = s\<lparr>note_position :=
                      float_to_uint32 (real (unat (note_position s)) - note_length s * e)\<rparr>
           in s\<lparr>note_length := 2 * tempo_scale s\<rparr>
         else
           let s = s\<lparr>note_resting := False\<rparr>;
               s = audio_play_tone p (note_freq s (current_note s)) s;
               s = (if note_freq s previous_note \<noteq> note_freq s (current_note s)
                    then audio_stop_tone p (note_freq s previous_note) s else s);
               s = s\<lparr>note_position :=
                      float_to_uint32 (real (unat (note_position s)) - note_length s * e)\<rparr>
           in s\<lparr>note_length := note_duration s (current_note s) * tempo_scale s\<rparr>)"
proof -
  from assms(3) assms(1,2) have ne: "\<not> (notes_count s \<le> current_note s + 1 \<and> \<not> notes_repeat s)"
    by (simp add: melody_ends_def)
  show ?thesis
    unfolding advance_melody_def Let_def
    using assms(1,2) ne by (auto simp: fst_conv snd_conv)
qed

lemma advance_state_not_ending:
  assumes "\<not> melody_ends step e s"
  shows "\<exists>g2 s2. advance_melody p step e (fst (advance_effects p False s))
                    (snd (advance_effects p False s)) = (Inr g2, s2)
           \<and> audio_advance_state p step e s =
               (let s3 = (if \<not> playing_note s2 \<and> \<not> playing_melody s2
                          then audio_stop_all p s2 else s2)
                in (g2 \<or> state_changed s3, s3\<lparr>state_changed := False\<rparr>))"
proof -
  obtain g1 s1 where 1: "advance_effects p False s = (g1, s1)"
    by (cases "advance_effects p False s")
  have s1: "s1 = snd (advance_effects p False s)" by (simp add: 1)
  from assms have "\<not> melody_ends step e s1" by (simp add: s1)
  from advance_melody_continue [OF this, of p g1]
  obtain g2 s2 where 2: "advance_melody p step e g1 s1 = (Inr g2, s2)" by blast
  define s3 where "s3 = (if \<not> playing_note s2 \<and> \<not> playing_melody s2
                         then audio_stop_all p s2 else s2)"
  have "audio_advance_state p step e s
      = (if state_changed s3 then (True, s3\<lparr>state_changed := False\<rparr>) else (g2, s3))"
    by (simp add: audio_advance_state_def 1 2 Let_def s3_def)
  also have "\<dots> = (g2 \<or> state_changed s3, s3\<lparr>state_changed := False\<rparr>)"
    by (simp add: latch_clear_id)
  finally have "audio_advance_state p step e s =
               (let s3 = (if \<not> playing_note s2 \<and> \<not> playing_melody s2
                          then audio_stop_all p s2 else s2)
                in (g2 \<or> state_changed s3, s3\<lparr>state_changed := False\<rparr>))"
    by (simp add: s3_def Let_def)
  with 2 show ?thesis by (simp add: 1)
qed

lemma advance_state_ending:
  assumes "melody_ends step e s"
  shows "audio_advance_state p step e s =
        (True, audio_stop_tone p (note_freq s (current_note s))
           ((snd (advance_effects p False s))
              \<lparr>note_position := note_position s + step, current_note := current_note s + 1,
               voices_timer := timer_read p, playing_melody := False\<rparr>))"
proof -
  obtain g1 s1 where 1: "advance_effects p False s = (g1, s1)"
    by (cases "advance_effects p False s")
  have s1: "s1 = snd (advance_effects p False s)" by (simp add: 1)
  from assms have "melody_ends step e s1" by (simp add: s1)
  from advance_melody_end [OF this, of p g1] show ?thesis
    by (simp add: audio_advance_state_def 1 Let_def) (simp add: s1)
qed

lemma advance_state_no_melody:
  assumes "\<not> playing_melody s"
  shows "playing_note s \<Longrightarrow> audio_advance_state p step e s =
           (fst (advance_effects p False s) \<or> state_changed s,
            (snd (advance_effects p False s))\<lparr>state_changed := False\<rparr>)"
    and "\<not> playing_note s \<Longrightarrow> audio_advance_state p step e s =
           (state_changed (audio_stop_all p s), (audio_stop_all p s)\<lparr>state_changed := False\<rparr>)"
proof -
  obtain g1 s1 where 1: "advance_effects p False s = (g1, s1)"
    by (cases "advance_effects p False s")
  have s1: "s1 = snd (advance_effects p False s)" by (simp add: 1)
  have nm: "\<not> playing_melody s1" using assms by (simp add: s1)
  have 2: "advance_melody p step e g1 s1 = (Inr g1, s1)" using nm by (rule advance_melody_idle)
  {
    assume pn: "playing_note s"
    then have "playing_note s1" by (simp add: s1)
    then have "audio_advance_state p step e s
        = (if state_changed s1 then (True, s1\<lparr>state_changed := False\<rparr>) else (g1, s1))"
      by (simp add: audio_advance_state_def 1 2 Let_def)
    also have "\<dots> = (g1 \<or> state_changed s1, s1\<lparr>state_changed := False\<rparr>)"
      by (simp add: latch_clear_id)
    finally show "audio_advance_state p step e s =
           (fst (advance_effects p False s) \<or> state_changed s,
            (snd (advance_effects p False s))\<lparr>state_changed := False\<rparr>)"
      by (simp add: 1) (simp add: s1)
  }
  {
    assume pn: "\<not> playing_note s"
    then have e: "advance_effects p False s = (False, s)" by (simp add: advance_effects_def)
    with 1 have "g1 = False" "s1 = s" by simp_all
    with 2 nm pn have "audio_advance_state p step e s
        = (if state_changed (audio_stop_all p s)
           then (True, (audio_stop_all p s)\<lparr>state_changed := False\<rparr>)
           else (False, audio_stop_all p s))"
      by (simp add: audio_advance_state_def e Let_def)
    also have "\<dots> = (state_changed (audio_stop_all p s),
        (audio_stop_all p s)\<lparr>state_changed := False\<rparr>)"
      by (simp add: latch_clear_id)
    finally show "audio_advance_state p step e s =
           (state_changed (audio_stop_all p s), (audio_stop_all p s)\<lparr>state_changed := False\<rparr>)" .
  }
qed

lemma advance_state_latch:
  "(melody_ends step e s \<longrightarrow>
      audio_advance_state p step e s =
        (True, audio_stop_tone p (note_freq s (current_note s))
           ((snd (advance_effects p False s))
              \<lparr>note_position := note_position s + step, current_note := current_note s + 1,
               voices_timer := timer_read p, playing_melody := False\<rparr>)))
   \<and> (\<not> melody_ends step e s \<longrightarrow>
        \<not> state_changed (snd (audio_advance_state p step e s))
        \<and> (state_changed s \<longrightarrow> fst (audio_advance_state p step e s))
        \<and> (playing_note s \<and> \<not> playing_melody s
              \<and> (AUDIO_ENABLE_TONE_MULTIPLEXING p \<or> vibrato p \<or> glissando p)
            \<longrightarrow> fst (audio_advance_state p step e s))
        \<and> (\<not> playing_note (snd (audio_advance_state p step e s))
              \<and> \<not> playing_melody (snd (audio_advance_state p step e s))
            \<longrightarrow> (\<exists>t. snd (audio_advance_state p step e s)
                        = (audio_stop_all p t)\<lparr>state_changed := False\<rparr>)))"
proof (intro conjI impI)
  obtain g1 s1 where 1: "advance_effects p False s = (g1, s1)"
    by (cases "advance_effects p False s")
  have s1: "s1 = snd (advance_effects p False s)" by (simp add: 1)
  {
    assume e: "melody_ends step e s"
    then have "melody_ends step e s1" by (simp add: s1)
    from advance_melody_end [OF this, of p g1]
    show "audio_advance_state p step e s =
        (True, audio_stop_tone p (note_freq s (current_note s))
           ((snd (advance_effects p False s))
              \<lparr>note_position := note_position s + step, current_note := current_note s + 1,
               voices_timer := timer_read p, playing_melody := False\<rparr>))"
      by (simp add: audio_advance_state_def 1 Let_def) (simp add: s1)
  }
  {
    assume e: "\<not> melody_ends step e s"
    then have "\<not> melody_ends step e s1" by (simp add: s1)
    from advance_melody_continue [OF this, of p g1]
    obtain g2 s2 where 2: "advance_melody p step e g1 s1 = (Inr g2, s2)" by blast
    define s3 where "s3 = (if \<not> playing_note s2 \<and> \<not> playing_melody s2 then audio_stop_all p s2 else s2)"
    have r: "audio_advance_state p step e s
        = (if state_changed s3 then (True, s3\<lparr>state_changed := False\<rparr>) else (g2, s3))"
      by (simp add: audio_advance_state_def 1 2 Let_def s3_def)
    show "\<not> state_changed (snd (audio_advance_state p step e s))"
      by (simp add: r)
    {
      assume "state_changed s"
      then have "state_changed s1" by (simp add: s1)
      then have "state_changed s2" using changed_advance_melody [of s1 p step e g1] 2 by simp
      then have "state_changed s3"
        by (simp add: s3_def audio_stop_all_def changed_stop_all_rec changed_audio_init)
      then show "fst (audio_advance_state p step e s)" by (simp add: r)
    }
    {
      assume a: "playing_note s \<and> \<not> playing_melody s
              \<and> (AUDIO_ENABLE_TONE_MULTIPLEXING p \<or> vibrato p \<or> glissando p)"
      then have "g1" using 1 by (auto simp: advance_effects_def Let_def split: if_splits)
      moreover have "\<not> playing_melody s1" using a by (simp add: s1)
      then have "g2 = g1" using 2 by (simp add: advance_melody_def)
      ultimately show "fst (audio_advance_state p step e s)" by (simp add: r)
    }
    {
      assume a: "\<not> playing_note (snd (audio_advance_state p step e s))
              \<and> \<not> playing_melody (snd (audio_advance_state p step e s))"
      have "playing_note s3 = playing_note (snd (audio_advance_state p step e s))"
        "playing_melody s3 = playing_melody (snd (audio_advance_state p step e s))"
        by (simp_all add: r)
      with a have n3: "\<not> playing_note s3" "\<not> playing_melody s3" by simp_all
      have "s3 = audio_stop_all p s2"
      proof (rule ccontr)
        assume "s3 \<noteq> audio_stop_all p s2"
        then have "s3 = s2" "playing_note s2 \<or> playing_melody s2"
          by (auto simp: s3_def split: if_splits)
        with n3 show False by simp
      qed
      then have "snd (audio_advance_state p step e s) = (audio_stop_all p s2)\<lparr>state_changed := False\<rparr>"
        by (simp add: r)
      then show "\<exists>t. snd (audio_advance_state p step e s)
                        = (audio_stop_all p t)\<lparr>state_changed := False\<rparr>" by blast
    }
  }
qed

text \<open>
  Claim C4, as stated, fails on the call that ends a melody: the one-note melody
  \<^verbatim>\<open>[(440,4)]\<close> at 120 beats per minute has length 2, and the tick of step 2 returns
  true from inside the melody block. After it neither a note nor a melody is active, yet
  \<^verbatim>\<open>audio_stop_all\<close> has not run (the log ends with the release and its single
  driver stop), and \<^verbatim>\<open>state_changed\<close>, set by the release, is still set.
\<close>

theorem melody_end_skips_stages:
  "playing_melody one_note
   \<and> fst (audio_advance_state demo_platform 2 1 one_note)
   \<and> state_changed (snd (audio_advance_state demo_platform 2 1 one_note))
   \<and> \<not> playing_note (snd (audio_advance_state demo_platform 2 1 one_note))
   \<and> \<not> playing_melody (snd (audio_advance_state demo_platform 2 1 one_note))
   \<and> calls (snd (audio_advance_state demo_platform 2 1 one_note))
       = calls one_note @ [Stop_Tone 440, Driver_Stop]"
  by code_simp

text \<open>
  Claim C4, amended. On the call that ends a melody which does not repeat,
  \<^verbatim>\<open>audio_advance_state\<close> runs the first stage, advances the position and the note
  index, releases the last note and returns true at once: the defensive
  \<^verbatim>\<open>audio_stop_all\<close> and the \<^verbatim>\<open>state_changed\<close> latch are not evaluated on that call.
  On every other call all four stages are evaluated, in order: the result is that of
  the melody stage run on the result of the first stage, followed by
  \<^verbatim>\<open>audio_stop_all\<close> when neither a note nor a melody is left, followed by the latch,
  which is clear afterwards and forces the result true when it was set. The first stage
  moves the multiplexing index when a tone plays and multiplexing is on, and asks for an
  update when a tone plays and multiplexing, vibrato or glissando is on. The melody stage
  does nothing without a melody, adds the step to the position while the note lasts
  (asking for no update), and otherwise moves to the next note or inserts a rest, asking
  for an update. A call made while no melody plays (such as the call after the one that
  ended a melody) reads and clears the latch; it runs \<^verbatim>\<open>audio_stop_all\<close> only when no
  tone is playing either.
\<close>

theorem advance_state_stages:
  "(melody_ends step e s \<longrightarrow>
      audio_advance_state p step e s =
        (True, audio_stop_tone p (note_freq s (current_note s))
           ((snd (advance_effects p False s))
              \<lparr>note_position := note_position s + step, current_note := current_note s + 1,
               voices_timer := timer_read p, playing_melody := False\<rparr>)))
   \<and> (\<not> melody_ends step e s \<longrightarrow>
        \<not> state_changed (snd (audio_advance_state p step e s))
        \<and> (state_changed s \<longrightarrow> fst (audio_advance_state p step e s))
        \<and> (playing_note s \<and> \<not> playing_melody s
              \<and> (AUDIO_ENABLE_TONE_MULTIPLEXING p \<or> vibrato p \<or> glissando p)
            \<longrightarrow> fst (audio_advance_state p step e s))
        \<and> (\<not> playing_note (snd (audio_advance_state p step e s))
              \<and> \<not> playing_melody (snd (audio_advance_state p step e s))
            \<longrightarrow> (\<exists>t. snd (audio_advance_state p step e s)
                        = (audio_stop_all p t)\<lparr>state_changed := False\<rparr>))
        \<and> (\<exists>g2 s2. advance_melody p step e (fst (advance_effects p False s))
                    (snd (advance_effects p False s)) = (Inr g2, s2)
           \<and> audio_advance_state p step e s =
               (let s3 = (if \<not> playing_note s2 \<and> \<not> playing_melody s2
                          then audio_stop_all p s2 else s2)
                in (g2 \<or> state_changed s3, s3\<lparr>state_changed := False\<rparr>))))
   \<and> advance_effects p False s =
         (playing_note s \<and> (AUDIO_ENABLE_TONE_MULTIPLEXING p \<or> vibrato p \<or> glissando p),
          if playing_note s \<and> AUDIO_ENABLE_TONE_MULTIPLEXING p
          then s\<lparr>tone_multiplexing_index_shift :=
                  word_of_int
                    (c_rem (truncate (real (unat (timer_read p)) / tone_multiplexing_rate s))
                           (min (AUDIO_MAX_SIMULTANEOUS_TONES p) (uint (active_tones s))))\<rparr>
          else s)
   \<and> (\<not> playing_melody s \<longrightarrow> advance_melody p step e g s = (Inr g, s))
   \<and> (playing_melody s \<and> \<not> note_length s * e \<le> real (unat (note_position s + step)) \<longrightarrow>
        advance_melody p step e g s
          = (Inr False, s\<lparr>note_position := note_position s + step\<rparr>))
   \<and> (playing_melody s \<and> note_length s * e \<le> real (unat (note_position s + step))
        \<and> \<not> melody_ends step e s \<longrightarrow>
        advance_melody p step e g s =
     (Inr True,
      let previous_note = current_note s;
          s = s\<lparr>note_position := note_position s + step\<rparr>;
          s = s\<lparr>current_note := current_note s + 1\<rparr>;
          s = s\<lparr>voices_timer := timer_read p\<rparr>;
          s = (if current_note s \<ge> notes_count s then s\<lparr>current_note := 0\<rparr> else s)
      in if \<not> note_resting s \<and> note_freq s previous_note = note_freq s (current_note s)
         then
           let s = s\<lparr>note_resting := True\<rparr>;
               s = s\<lparr>current_note := previous_note\<rparr>;
               s = audio_play_tone p 0 s;
               s = audio_stop_tone p (note_freq s previous_note) s;
               s = s\<lparr>note_position :=
                      float_to_uint32 (real (unat (note_position s)) - note_length s * e)\<rparr>
           in s\<lparr>note_length := 2 * tempo_scale s\<rparr>
         else
           let s = s\<lparr>note_resting := False\<rparr>;
               s = audio_play_tone p (note_freq s (current_note s)) s;
               s = (if note_freq s previous_note \<noteq> note_freq s (current_note s)
                    then audio_stop_tone p (note_freq s previous_note) s else s);
               s = s\<lparr>note_position :=
                      float_to_uint32 (real (unat (note_position s)) - note_length s * e)\<rparr>
           in s\<lparr>note_length := note_duration s (current_note s) * tempo_scale s\<rparr>))
   \<and> (\<not> playing_melody s \<and> playing_note s \<longrightarrow>
        audio_advance_state p step e s =
           (fst (advance_effects p False s) \<or> state_changed s,
            (snd (advance_effects p False s))\<lparr>state_changed := False\<rparr>))
   \<and> (\<not> playing_melody s \<and> \<not> playing_note s \<longrightarrow>
        audio_advance_state p step e s =
           (state_changed (audio_stop_all p s),
            (audio_stop_all p s)\<lparr>state_changed := False\<rparr>))"
  using advance_state_latch [of step e s p]
    advance_state_ending [of step e s p] advance_state_not_ending [of step e s p]
    advance_effects_eq [of p s] advance_melody_idle [of s p step e g]
    advance_melody_wait [of s e step p g] advance_melody_next [of s e step p g]
    advance_state_no_melody [of s p step e]
  by blast

theorem advance_state_stages_witness:
  "melody_ends 2 1 one_note
   \<and> fst (audio_advance_state demo_platform 2 1 one_note)
   \<and> \<not> melody_ends 1 1 one_note
   \<and> \<not> state_changed (snd (audio_advance_state demo_platform 1 1 one_note))
   \<and> state_changed one_note
   \<and> fst (audio_advance_state demo_platform 1 1 one_note)
   \<and> playing_melody one_note
   \<and> \<not> note_length one_note * 1 \<le> real (unat (note_position one_note + 1))
   \<and> advance_melody demo_platform 1 1 False one_note
       = (Inr False, one_note\<lparr>note_position := note_position one_note + 1\<rparr>)
   \<and> playing_melody twice_440
   \<and> note_length twice_440 * 1 \<le> real (unat (note_position twice_440 + 2))
   \<and> \<not> melody_ends 2 1 twice_440
   \<and> fst (advance_melody demo_platform 2 1 False twice_440) = Inr True
   \<and> \<not> playing_melody two_tones \<and> playing_note two_tones
   \<and> advance_melody demo_platform 1 1 False two_tones = (Inr False, two_tones)
   \<and> snd (audio_advance_state demo_platform 1 1 two_tones)
       = (snd (advance_effects demo_platform False two_tones))\<lparr>state_changed := False\<rparr>
   \<and> \<not> playing_melody audio_ready \<and> \<not> playing_note audio_ready
   \<and> snd (audio_advance_state demo_platform 1 1 audio_ready)
       = (audio_stop_all demo_platform audio_ready)\<lparr>state_changed := False\<rparr>"
proof -
  have h: "melody_ends 2 1 one_note" "\<not> melody_ends 1 1 one_note" "state_changed one_note"
    "playing_melody one_note"
    "\<not> note_length one_note * 1 \<le> real (unat (note_position one_note + 1))"
    by code_simp+
  have t: "playing_melody twice_440"
    "note_length twice_440 * 1 \<le> real (unat (note_position twice_440 + 2))"
    "\<not> melody_ends 2 1 twice_440"
    by code_simp+
  have u: "\<not> playing_melody two_tones" "playing_note two_tones"
    "\<not> playing_melody audio_ready" "\<not> playing_note audio_ready"
    by code_simp+
  have 1: "fst (audio_advance_state demo_platform 2 1 one_note)"
    using h(1) advance_state_stages [of 2 1 one_note demo_platform False] by simp
  have 2: "\<not> state_changed (snd (audio_advance_state demo_platform 1 1 one_note))"
    "fst (audio_advance_state demo_platform 1 1 one_note)"
    using h(2,3) advance_state_stages [of 1 1 one_note demo_platform False] by blast+
  have 3: "advance_melody demo_platform 1 1 False one_note
       = (Inr False, one_note\<lparr>note_position := note_position one_note + 1\<rparr>)"
    using h(4,5) advance_state_stages [of 1 1 one_note demo_platform False] by blast
  have "\<exists>x. advance_melody demo_platform 2 1 False twice_440 = (Inr True, x)"
    using t advance_state_stages [of 2 1 twice_440 demo_platform False] by blast
  then have 4: "fst (advance_melody demo_platform 2 1 False twice_440) = Inr True"
    by auto
  have 5: "advance_melody demo_platform 1 1 False two_tones = (Inr False, two_tones)"
    using u(1) advance_state_stages [of 1 1 two_tones demo_platform False] by blast
  have "audio_advance_state demo_platform 1 1 two_tones =
           (fst (advance_effects demo_platform False two_tones) \<or> state_changed two_tones,
            (snd (advance_effects demo_platform False two_tones))\<lparr>state_changed := False\<rparr>)"
    using u(1,2) advance_state_stages [of 1 1 two_tones demo_platform False] by blast
  then have 6: "snd (audio_advance_state demo_platform 1 1 two_tones)
       = (snd (advance_effects demo_platform False two_tones))\<lparr>state_changed := False\<rparr>"
    by simp
  have "audio_advance_state demo_platform 1 1 audio_ready =
           (state_changed (audio_stop_all demo_platform audio_ready),
            (audio_stop_all demo_platform audio_ready)\<lparr>state_changed := False\<rparr>)"
    using u(3,4) advance_state_stages [of 1 1 audio_ready demo_platform False] by blast
  then have 7: "snd (audio_advance_state demo_platform 1 1 audio_ready)
       = (audio_stop_all demo_platform audio_ready)\<lparr>state_changed := False\<rparr>"
    by simp
  from h t u 1 2 3 4 5 6 7 show ?thesis by blast
qed

subsection \<open>Clicks\<close>

text \<open>
  Claim C5, evaluated on the code: \<^verbatim>\<open>audio_play_click(0, 1000, 5)\<close> at tempo 120
  installs a one-note melody that does not repeat, and the first tick of step 1 ends it
  with the driver stopped. Its duration is \<open>1 * 120 * (5 / 1000) = 3 / 5\<close>, because
  \<^verbatim>\<open>64 / 60\<close> is an integer division, and its note length is \<open>3 / 10\<close>, not the
  \<open>(64 / 60) * 120 * (5 / 1000) * (60 / 120) = 8 / 25\<close> of the claim.
\<close>

theorem click_note_length:
  "note_tempo audio_ready = 120
   \<and> click clicked = [(1000, 3 / 5), (0, 0)]
   \<and> notes_pointer clicked = Click \<and> notes_count clicked = 1 \<and> \<not> notes_repeat clicked
   \<and> note_length clicked = 3 / 10
   \<and> note_length clicked \<noteq> (64 / 60) * 120 * (5 / 1000) * (60 / 120)
   \<and> \<not> playing_melody (snd (audio_advance_state demo_platform 1 1 clicked))
   \<and> calls (snd (audio_advance_state demo_platform 1 1 clicked))
       = calls clicked @ [Stop_Tone 1000, Driver_Stop]"
  by code_simp

subsection \<open>Two equal notes in a row\<close>

text \<open>
  Claim C2. The melody \<^verbatim>\<open>[(440,4),(440,4)]\<close>, not repeating, at 120 beats per minute
  with ticks of step 1 and \<^verbatim>\<open>end = 1\<close>: the first note has length 2; the second tick
  completes it and inserts the rest (\<^verbatim>\<open>note_resting\<close> set, the index still 0, 0
  requested and 440 released, note length that of 2 units); the third tick ends the rest
  and requests 440 again; the fifth tick completes the melody. The frequencies requested
  from the start of the melody to its completion are 440, 0, 440, so exactly one rest
  was inserted.
\<close>

theorem rest_between_equal_notes:
  "note_length twice_440 = 4 * (60 / 120)
   \<and> requests (drop (length (calls audio_ready)) (calls twice_440)) = [440]
   \<and> (let s = advance_all demo_platform 1 [1, 1] twice_440
      in playing_melody s \<and> note_resting s \<and> current_note s = 0
         \<and> note_length s = 2 * (60 / 120)
         \<and> calls s = calls twice_440 @ [Play_Tone 0, Stop_Tone 440]
         \<and> tone_stack s = [0])
   \<and> (let s = advance_all demo_platform 1 [1, 1, 1] twice_440
      in playing_melody s \<and> \<not> note_resting s \<and> current_note s = 1
         \<and> note_length s = 4 * (60 / 120)
         \<and> calls s = calls twice_440 @ [Play_Tone 0, Stop_Tone 440, Play_Tone 440])
   \<and> playing_melody (advance_all demo_platform 1 [1, 1, 1, 1] twice_440)
   \<and> (let s = advance_all demo_platform 1 [1, 1, 1, 1, 1] twice_440
      in \<not> playing_melody s
         \<and> requests (drop (length (calls audio_ready)) (calls s)) = [440, 0, 440]
         \<and> calls s = calls twice_440 @ [Play_Tone 0, Stop_Tone 440, Play_Tone 440, Stop_Tone 440])"
  by code_simp

subsection \<open>What tone requests and releases leave alone\<close>

lemma tone_push_frame [simp]:
  "playing_melody (tone_push p f s) = playing_melody s"
  "notes_pointer (tone_push p f s) = notes_pointer s"
  "notes_count (tone_push p f s) = notes_count s"
  "notes_repeat (tone_push p f s) = notes_repeat s"
  "note_length (tone_push p f s) = note_length s"
  "note_tempo (tone_push p f s) = note_tempo s"
  "current_note (tone_push p f s) = current_note s"
  "note_position (tone_push p f s) = note_position s"
  "note_resting (tone_push p f s) = note_resting s"
  "click (tone_push p f s) = click s"
  "audio_initialized (tone_push p f s) = audio_initialized s"
  "audio_config_enable (tone_push p f s) = audio_config_enable s"
  "tone_multiplexing_rate (tone_push p f s) = tone_multiplexing_rate s"
  by (simp_all add: tone_push_def Let_def log_call_def split: option.split)

lemma tone_remove_frame [simp]:
  "playing_melody (tone_remove p f s) = playing_melody s"
  "notes_pointer (tone_remove p f s) = notes_pointer s"
  "notes_count (tone_remove p f s) = notes_count s"
  "notes_repeat (tone_remove p f s) = notes_repeat s"
  "note_length (tone_remove p f s) = note_length s"
  "note_tempo (tone_remove p f s) = note_tempo s"
  "current_note (tone_remove p f s) = current_note s"
  "note_position (tone_remove p f s) = note_position s"
  "note_resting (tone_remove p f s) = note_resting s"
  "click (tone_remove p f s) = click s"
  "audio_initialized (tone_remove p f s) = audio_initialized s"
  "audio_config_enable (tone_remove p f s) = audio_config_enable s"
  "tone_multiplexing_rate (tone_remove p f s) = tone_multiplexing_rate s"
  by (simp_all add: tone_remove_def Let_def log_call_def split: option.split)

lemma log_call_frame [simp]:
  "notes_pointer (log_call c s) = notes_pointer s"
  "notes_count (log_call c s) = notes_count s"
  "notes_repeat (log_call c s) = notes_repeat s"
  "note_length (log_call c s) = note_length s"
  "note_tempo (log_call c s) = note_tempo s"
  "current_note (log_call c s) = current_note s"
  "note_position (log_call c s) = note_position s"
  "note_resting (log_call c s) = note_resting s"
  "click (log_call c s) = click s"
  "tone_multiplexing_rate (log_call c s) = tone_multiplexing_rate s"
  by (simp_all add: log_call_def)

lemma play_tone_frame [simp]:
  "audio_initialized s \<Longrightarrow> playing_melody (audio_play_tone p f s) = playing_melody s"
  "audio_initialized s \<Longrightarrow> notes_pointer (audio_play_tone p f s) = notes_pointer s"
  "audio_initialized s \<Longrightarrow> notes_count (audio_play_tone p f s) = notes_count s"
  "audio_initialized s \<Longrightarrow> notes_repeat (audio_play_tone p f s) = notes_repeat s"
  "audio_initialized s \<Longrightarrow> note_length (audio_play_tone p f s) = note_length s"
  "audio_initialized s \<Longrightarrow> note_tempo (audio_play_tone p f s) = note_tempo s"
  "audio_initialized s \<Longrightarrow> current_note (audio_play_tone p f s) = current_note s"
  "audio_initialized s \<Longrightarrow> note_position (audio_play_tone p f s) = note_position s"
  "audio_initialized s \<Longrightarrow> note_resting (audio_play_tone p f s) = note_resting s"
  "audio_initialized s \<Longrightarrow> click (audio_play_tone p f s) = click s"
  "audio_initialized s \<Longrightarrow> audio_initialized (audio_play_tone p f s) = audio_initialized s"
  "audio_initialized s \<Longrightarrow> audio_config_enable (audio_play_tone p f s) = audio_config_enable s"
  "audio_initialized s \<Longrightarrow> tone_multiplexing_rate (audio_play_tone p f s) = tone_multiplexing_rate s"
  by (simp_all add: audio_play_tone_def play_tone_rec_unfold)

lemma stop_tone_frame [simp]:
  "audio_initialized s \<Longrightarrow> playing_melody (audio_stop_tone p f s) = playing_melody s"
  "audio_initialized s \<Longrightarrow> notes_pointer (audio_stop_tone p f s) = notes_pointer s"
  "audio_initialized s \<Longrightarrow> notes_count (audio_stop_tone p f s) = notes_count s"
  "audio_initialized s \<Longrightarrow> notes_repeat (audio_stop_tone p f s) = notes_repeat s"
  "audio_initialized s \<Longrightarrow> note_length (audio_stop_tone p f s) = note_length s"
  "audio_initialized s \<Longrightarrow> note_tempo (audio_stop_tone p f s) = note_tempo s"
  "audio_initialized s \<Longrightarrow> current_note (audio_stop_tone p f s) = current_note s"
  "audio_initialized s \<Longrightarrow> note_position (audio_stop_tone p f s) = note_position s"
  "audio_initialized s \<Longrightarrow> note_resting (audio_stop_tone p f s) = note_resting s"
  "audio_initialized s \<Longrightarrow> click (audio_stop_tone p f s) = click s"
  "audio_initialized s \<Longrightarrow> audio_initialized (audio_stop_tone p f s) = audio_initialized s"
  "audio_initialized s \<Longrightarrow> audio_config_enable (audio_stop_tone p f s) = audio_config_enable s"
  "audio_initialized s \<Longrightarrow> tone_multiplexing_rate (audio_stop_tone p f s) = tone_multiplexing_rate s"
  by (simp_all add: audio_stop_tone_def stop_tone_rec_unfold)

lemma melody_cong:
  "notes_pointer s' = notes_pointer s \<Longrightarrow> click s' = click s \<Longrightarrow> melody s' = melody s"
  by (simp add: melody_def split: melody_ref.split)

lemma play_tone_reads [simp]:
  "audio_initialized s \<Longrightarrow> melody (audio_play_tone p f s) = melody s"
  "audio_initialized s \<Longrightarrow> note_freq (audio_play_tone p f s) i = note_freq s i"
  "audio_initialized s \<Longrightarrow> note_duration (audio_play_tone p f s) i = note_duration s i"
  "audio_initialized s \<Longrightarrow> tempo_scale (audio_play_tone p f s) = tempo_scale s"
  by (simp_all add: note_freq_def note_duration_def tempo_scale_def melody_def
        split: melody_ref.split)

lemma stop_tone_reads [simp]:
  "audio_initialized s \<Longrightarrow> melody (audio_stop_tone p f s) = melody s"
  "audio_initialized s \<Longrightarrow> note_freq (audio_stop_tone p f s) i = note_freq s i"
  "audio_initialized s \<Longrightarrow> note_duration (audio_stop_tone p f s) i = note_duration s i"
  "audio_initialized s \<Longrightarrow> tempo_scale (audio_stop_tone p f s) = tempo_scale s"
  by (simp_all add: note_freq_def note_duration_def tempo_scale_def melody_def
        split: melody_ref.split)

subsection \<open>The time a melody takes\<close>

lemma distinct_neighbours_nth:
  "distinct_neighbours ns \<Longrightarrow> Suc i < length ns \<Longrightarrow> fst (ns ! i) \<noteq> fst (ns ! Suc i)"
proof (induction ns arbitrary: i rule: distinct_neighbours.induct)
  case (1 x y zs)
  then show ?case by (cases i) simp_all
qed simp_all

lemma unat16_of_nat: "n < 2 ^ 16 \<Longrightarrow> unat (of_nat n :: 16 word) = n"
  by (simp add: unat_of_nat)

lemma unat32_of_nat: "n < 2 ^ 32 \<Longrightarrow> unat (of_nat n :: 32 word) = n"
  by (simp add: unat_of_nat)

lemma carry_overshoot:
  assumes "l \<le> a" "a < 2 ^ 32"
  shows "unat (float_to_uint32 (real a - real l)) = a - l"
proof -
  have "real a - real l = real (a - l)" using assms(1) by linarith
  moreover have "truncate (real (a - l)) = int (a - l)"
    by (simp add: truncate_def)
  ultimately have "float_to_uint32 (real a - real l) = of_nat (a - l)"
    by (simp only: float_to_uint32_def of_int_of_nat_eq)
  moreover have "a - l < 2 ^ 32" using assms(2) by simp
  ultimately show ?thesis by (simp only: unat32_of_nat)
qed

lemma tempo_scale_updates [simp]:
  "tempo_scale (s\<lparr>active_tones := x0\<rparr>) = tempo_scale s"
  "tempo_scale (s\<lparr>frequencies := x1\<rparr>) = tempo_scale s"
  "tempo_scale (s\<lparr>playing_melody := x2\<rparr>) = tempo_scale s"
  "tempo_scale (s\<lparr>playing_note := x3\<rparr>) = tempo_scale s"
  "tempo_scale (s\<lparr>state_changed := x4\<rparr>) = tempo_scale s"
  "tempo_scale (s\<lparr>notes_pointer := x5\<rparr>) = tempo_scale s"
  "tempo_scale (s\<lparr>notes_count := x6\<rparr>) = tempo_scale s"
  "tempo_scale (s\<lparr>notes_repeat := x7\<rparr>) = tempo_scale s"
  "tempo_scale (s\<lparr>note_length := x8\<rparr>) = tempo_scale s"
  "tempo_scale (s\<lparr>current_note := x9\<rparr>) = tempo_scale s"
  "tempo_scale (s\<lparr>note_position := x10\<rparr>) = tempo_scale s"
  "tempo_scale (s\<lparr>note_resting := x11\<rparr>) = tempo_scale s"
  "tempo_scale (s\<lparr>tone_multiplexing_rate := x12\<rparr>) = tempo_scale s"
  "tempo_scale (s\<lparr>tone_multiplexing_index_shift := x13\<rparr>) = tempo_scale s"
  "tempo_scale (s\<lparr>voices_timer := x14\<rparr>) = tempo_scale s"
  "tempo_scale (s\<lparr>click := x15\<rparr>) = tempo_scale s"
  "tempo_scale (s\<lparr>audio_initialized := x16\<rparr>) = tempo_scale s"
  "tempo_scale (s\<lparr>audio_config_enable := x17\<rparr>) = tempo_scale s"
  "tempo_scale (s\<lparr>calls := x18\<rparr>) = tempo_scale s"
  by (simp_all add: tempo_scale_def)

lemma tempo_scale_effects [simp]:
  "tempo_scale (snd (advance_effects p g s)) = tempo_scale s"
  "audio_initialized (snd (advance_effects p g s)) = audio_initialized s"
  "notes_pointer (snd (advance_effects p g s)) = notes_pointer s"
  "note_duration (snd (advance_effects p g s)) i = note_duration s i"
  by (simp_all add: snd_advance_effects tempo_scale_def)

lemma playing_at_effects [simp]:
  "playing_at ns scale i pos (snd (advance_effects p g s)) = playing_at ns scale i pos s"
  by (simp add: playing_at_def)

lemma playing_at_changed [simp]:
  "playing_at ns scale i pos (s\<lparr>state_changed := x\<rparr>) = playing_at ns scale i pos s"
  by (simp add: playing_at_def)

lemma advance_state_continue:
  assumes "advance_melody p k e (fst (advance_effects p False s)) (snd (advance_effects p False s))
           = (Inr g, s2)" "playing_melody s2"
  shows "snd (audio_advance_state p k e s) = s2\<lparr>state_changed := False\<rparr>"
proof -
  obtain g1 s1 where 1: "advance_effects p False s = (g1, s1)"
    by (cases "advance_effects p False s")
  show ?thesis using assms by (simp add: audio_advance_state_def 1 Let_def)
qed

lemma advance_state_end:
  assumes "advance_melody p k e (fst (advance_effects p False s)) (snd (advance_effects p False s))
           = (Inl r, s2)"
  shows "snd (audio_advance_state p k e s) = s2"
proof -
  obtain g1 s1 where 1: "advance_effects p False s = (g1, s1)"
    by (cases "advance_effects p False s")
  show ?thesis using assms by (simp add: audio_advance_state_def 1 Let_def)
qed

lemma whole_lengthD:
  assumes "\<forall>n\<in>set ns. whole_length scale m n" "i < length ns"
  shows "snd (ns ! i) * scale = real (note_ticks scale (ns ! i))"
    and "m \<le> note_ticks scale (ns ! i)" and "note_ticks scale (ns ! i) < 2 ^ 31"
    and "note_ticks scale (ns ! i) < 2 ^ 23"
proof -
  from assms have w: "whole_length scale m (ns ! i)" by simp
  then show "snd (ns ! i) * scale = real (note_ticks scale (ns ! i))"
    and "m \<le> note_ticks scale (ns ! i)" and 23: "note_ticks scale (ns ! i) < 2 ^ 23"
    by (simp_all add: whole_length_def)
  have "(2 :: nat) ^ 23 < 2 ^ 31" by simp
  with 23 show "note_ticks scale (ns ! i) < 2 ^ 31" by (rule less_trans)
qed

lemma melody_step:
  assumes at: "playing_at ns scale i pos s"
    and len: "length ns < 2 ^ 16"
    and dn: "distinct_neighbours ns"
    and wl: "\<forall>n\<in>set ns. whole_length scale m n"
    and k: "unat k \<le> m"
    and pos: "pos < note_ticks scale (ns ! i)"
  shows "if pos + unat k < note_ticks scale (ns ! i)
         then playing_at ns scale i (pos + unat k) (snd (audio_advance_state p k 1 s))
         else if Suc i < length ns
         then playing_at ns scale (Suc i) (pos + unat k - note_ticks scale (ns ! i))
                (snd (audio_advance_state p k 1 s))
         else \<not> playing_melody (snd (audio_advance_state p k 1 s))"
proof -
  define s1 where "s1 = snd (advance_effects p False s)"
  define g1 where "g1 = fst (advance_effects p False s)"
  define l where "l = note_ticks scale (ns ! i)"
  from at have at1: "playing_at ns scale i pos s1" by (simp add: s1_def)
  then have f: "playing_melody s1" "audio_initialized s1" "notes_pointer s1 = Song ns"
    "notes_count s1 = of_nat (length ns)" "\<not> notes_repeat s1" "tempo_scale s1 = scale"
    "current_note s1 = of_nat i" "i < length ns" "note_length s1 = snd (ns ! i) * scale"
    "unat (note_position s1) = pos"
    by (simp_all add: playing_at_def)
  note w = whole_lengthD [OF wl f(8), folded l_def]
  have nl: "note_length s1 = real l" using f(9) w(1) by simp
  have "unat (note_position s1) + unat k < 2 ^ LENGTH(32)"
    using f(10) pos k w(2,3) by (simp add: l_def)
  then have "unat (note_position s1 + k) = unat (note_position s1) + unat k"
    by (rule unat_add_lem [THEN iffD1])
  then have pk: "unat (note_position s1 + k) = pos + unat k"
    using f(10) by simp
  define a where "a = pos + unat k"
  have rk: "real (unat (note_position s1 + k)) = real a" and uk: "unat (note_position s1 + k) = a"
    by (simp_all only: pk a_def)
  have a32: "a < 2 ^ 32" using pos k w(2,3) by (simp add: a_def l_def)
  have ui: "unat (of_nat i :: 16 word) = i" using f(8) len by (simp add: unat16_of_nat)
  have nfi: "note_freq s1 (of_nat i) = fst (ns ! i)"
    by (simp add: note_freq_def melody_def f(3) ui)
  show ?thesis
  proof (cases "a < l")
    case True
    then have m1: "advance_melody p k 1 g1 s1
        = (Inr False, s1\<lparr>note_position := note_position s1 + k\<rparr>)"
      using f(1) nl rk by (simp add: advance_melody_def Let_def)
    have pm: "playing_melody (s1\<lparr>note_position := note_position s1 + k\<rparr>)"
      using f(1) by simp
    have "snd (audio_advance_state p k 1 s)
        = (s1\<lparr>note_position := note_position s1 + k\<rparr>)\<lparr>state_changed := False\<rparr>"
      using advance_state_continue [OF m1 [unfolded g1_def s1_def] pm [unfolded s1_def]]
      by (simp only: s1_def)
    then show ?thesis using True f uk
      by (simp add: l_def [symmetric] a_def [symmetric] playing_at_def tempo_scale_def)
  next
    case False
    then have ge: "l \<le> a" by simp
    have goto: "note_length s1 * 1 \<le> real (unat (note_position s1 + k))"
      using ge nl rk by simp
    show ?thesis
    proof (cases "Suc i < length ns")
      case True
      define j where "j = Suc i"
      have i1: "(of_nat i + 1 :: 16 word) = of_nat j" by (simp add: j_def)
      have j16: "j < 2 ^ 16" and jl: "j < length ns" using True len by (simp_all add: j_def)
      have uS: "unat (of_nat j :: 16 word) = j" using j16 by (rule unat16_of_nat)
      have uL: "unat (of_nat (length ns) :: 16 word) = length ns" using len by (rule unat16_of_nat)
      have nc: "\<not> (of_nat (length ns) \<le> (of_nat j :: 16 word))"
        using jl by (simp add: word_le_nat_alt uS uL)
      have nfS: "note_freq s1 (of_nat j) = fst (ns ! j)"
        by (simp add: note_freq_def melody_def f(3) uS)
      have ndS: "note_duration s1 (of_nat j) = snd (ns ! j)"
        by (simp add: note_duration_def melody_def f(3) uS)
      have ne: "fst (ns ! i) \<noteq> fst (ns ! j)"
        unfolding j_def using dn True by (rule distinct_neighbours_nth)
      have co: "unat (float_to_uint32 (real a - real l)) = a - l"
        using ge a32 by (rule carry_overshoot)
      obtain s2 where 2: "advance_melody p k 1 g1 s1 = (Inr True, s2)"
        and at2: "playing_at ns scale j (a - l) s2"
        using f(1-7) goto nc nfi nfS ndS ne jl rk nl co
        by (simp add: advance_melody_def Let_def playing_at_def i1)
      from at2 have pm: "playing_melody s2" by (simp add: playing_at_def)
      have "snd (audio_advance_state p k 1 s) = s2\<lparr>state_changed := False\<rparr>"
        by (rule advance_state_continue [OF 2 [unfolded g1_def s1_def] pm])
      then show ?thesis using False True at2
        by (simp add: l_def [symmetric] a_def [symmetric] j_def)
    next
      case F2: False
      with f(8) have "length ns = Suc i" by simp
      then have "(of_nat i + 1 :: 16 word) = of_nat (length ns)" by simp
      then have m3: "advance_melody p k 1 g1 s1
          = (Inl True, audio_stop_tone p (note_freq s1 (of_nat i))
               (s1\<lparr>note_position := note_position s1 + k, current_note := of_nat i + 1,
                   voices_timer := timer_read p, playing_melody := False\<rparr>))"
        using f(1-7) goto by (simp add: advance_melody_def Let_def del: of_nat_Suc)
      have "snd (audio_advance_state p k 1 s) = audio_stop_tone p (note_freq s1 (of_nat i))
               (s1\<lparr>note_position := note_position s1 + k, current_note := of_nat i + 1,
                   voices_timer := timer_read p, playing_melody := False\<rparr>)"
        using advance_state_end [OF m3 [unfolded g1_def s1_def]] by (simp only: s1_def)
      then show ?thesis using False F2 f(2)
        by (simp add: l_def [symmetric] a_def [symmetric])
    qed
  qed
qed

lemma total_ticks_drop:
  "i < length ns \<Longrightarrow>
   total_ticks scale (drop i ns) = note_ticks scale (ns ! i) + total_ticks scale (drop (Suc i) ns)"
  by (simp add: total_ticks_def Cons_nth_drop_Suc [symmetric])

lemma elapsed_bounds:
  assumes len: "length ns < 2 ^ 16"
    and dn: "distinct_neighbours ns"
    and wl: "\<forall>n\<in>set ns. whole_length scale m n"
  shows "\<forall>k\<in>set ks. unat k \<le> m \<Longrightarrow> playing_at ns scale i pos s
     \<Longrightarrow> pos < note_ticks scale (ns ! i)
     \<Longrightarrow> (case elapsed p 1 ks s of
            None \<Rightarrow> pos + sum_list (map unat ks) < total_ticks scale (drop i ns)
          | Some t \<Rightarrow> total_ticks scale (drop i ns) \<le> pos + t
                      \<and> pos + t < total_ticks scale (drop i ns) + m)"
proof (induction ks arbitrary: s i pos)
  case Nil
  then have "i < length ns" by (simp add: playing_at_def)
  then show ?case using Nil.prems(3) by (simp add: total_ticks_drop elapsed.simps)
next
  case (Cons k ks)
  define l where "l = note_ticks scale (ns ! i)"
  define s' where "s' = snd (audio_advance_state p k 1 s)"
  from Cons.prems have k: "unat k \<le> m" and ks: "\<forall>k\<in>set ks. unat k \<le> m"
    and at: "playing_at ns scale i pos s" and pos: "pos < l"
    by (simp_all add: l_def)
  from at have i: "i < length ns" by (simp add: playing_at_def)
  note R = total_ticks_drop [OF i, of scale, folded l_def]
  note step = melody_step [OF at len dn wl k, of p, folded l_def s'_def]
  consider (stay) "pos + unat k < l" | (move) "l \<le> pos + unat k" "Suc i < length ns"
    | (last) "l \<le> pos + unat k" "Suc i = length ns"
    using i by linarith
  then show ?case
  proof cases
    case stay
    with step pos have at': "playing_at ns scale i (pos + unat k) s'" by simp
    then have pm: "playing_melody s'" by (simp add: playing_at_def)
    from Cons.IH [OF ks at'] stay
    have "case elapsed p 1 ks s' of
            None \<Rightarrow> pos + unat k + sum_list (map unat ks) < total_ticks scale (drop i ns)
          | Some t \<Rightarrow> total_ticks scale (drop i ns) \<le> pos + unat k + t
                      \<and> pos + unat k + t < total_ticks scale (drop i ns) + m"
      by (simp add: l_def)
    then show ?thesis using pm
      by (simp add: elapsed.simps s'_def [symmetric] Let_def add.assoc split: option.splits)
  next
    case move
    with step pos have at': "playing_at ns scale (Suc i) (pos + unat k - l) s'" by simp
    then have pm: "playing_melody s'" by (simp add: playing_at_def)
    have "m \<le> note_ticks scale (ns ! Suc i)"
      using whole_lengthD(2) [OF wl move(2)] .
    then have "pos + unat k - l < note_ticks scale (ns ! Suc i)"
      using pos k move(1) by linarith
    from Cons.IH [OF ks at' this]
    have "case elapsed p 1 ks s' of
            None \<Rightarrow> pos + unat k + sum_list (map unat ks) < total_ticks scale (drop i ns)
          | Some t \<Rightarrow> total_ticks scale (drop i ns) \<le> pos + unat k + t
                      \<and> pos + unat k + t < total_ticks scale (drop i ns) + m"
      using move(1) by (auto simp: R split: option.splits)
    then show ?thesis using pm
      by (simp add: elapsed.simps s'_def [symmetric] Let_def add.assoc split: option.splits)
  next
    case last
    with step pos have pm: "\<not> playing_melody s'" by simp
    have "total_ticks scale (drop i ns) = l"
      using last(2) by (simp add: R) (simp add: total_ticks_def)
    then show ?thesis using pm last(1) pos k
      by (simp add: elapsed.simps s'_def [symmetric] Let_def)
  qed
qed

lemma stop_all_rec_initialized:
  "audio_initialized s \<Longrightarrow>
   audio_stop_all_rec init s =
     s\<lparr>active_tones := 0, calls := calls s @ [Driver_Stop], playing_melody := False,
       playing_note := False, frequencies := clear_frequencies (frequencies s)\<rparr>"
  by (simp add: audio_stop_all_rec_def Let_def log_call_def)

lemma play_melody_starts:
  assumes "audio_initialized s0" "audio_config_enable s0" "ns \<noteq> []"
  shows "playing_at ns (tempo_scale s0) 0 0
           (audio_play_melody p (Song ns) (of_nat (length ns)) False s0)"
proof -
  have "audio_play_tone_rec (audio_init p) p = audio_play_tone p"
    by (simp add: audio_play_tone_def)
  then show ?thesis
    using assms
    by (simp add: audio_play_melody_def play_melody_rec_unfold Let_def stop_all_rec_initialized
        playing_at_def note_duration_def melody_def)
qed

lemma nominal_whole:
  "\<forall>n\<in>set ns. whole_length scale m n \<Longrightarrow> nominal_length scale ns = real (total_ticks scale ns)"
  by (induction ns) (simp_all add: nominal_length_def total_ticks_def whole_length_def)

text \<open>
  Under the hypotheses of the theorem below, every \<^verbatim>\<open>float\<close> value of a tick is a
  binary32 value, so the \<^verbatim>\<open>float\<close> arithmetic of the code is the real arithmetic of
  the definitions: the tempo scale by hypothesis, the length of each note (a whole number
  below \<open>2 ^ 23\<close>, the exact product of the duration and the scale), the position
  converted for the comparison (below \<open>2 ^ 24\<close>), and the overshoot written back.
\<close>

lemma binary32_exact_nat: "n < 2 ^ 24 \<Longrightarrow> binary32_exact (real n)"
  unfolding binary32_exact_def list_ex_iff
  by (rule bexI [of _ 0]) simp_all

text \<open>
  At 100 beats per minute the scale \<open>60 / 100\<close> is no binary32 value: the code works
  with a rounded scale there, and the statement below does not cover it.
\<close>

lemma not_binary32_three_fifths: "\<not> binary32_exact (3 / 5)"
proof
  assume "binary32_exact (3 / 5)"
  then obtain k where "real_of_int \<lfloor>3 / 5 * 2 ^ k :: real\<rfloor> = 3 / 5 * 2 ^ k"
    by (auto simp: binary32_exact_def list_ex_iff)
  then obtain n :: int where "real_of_int n = 3 / 5 * 2 ^ k" by blast
  then have "real_of_int (5 * n) = real_of_int (3 * 2 ^ k)" by simp
  then have "5 * n = 3 * 2 ^ k" by (simp only: of_int_eq_iff)
  then have "(5 :: int) dvd 3 * 2 ^ k" by (metis dvd_triv_left)
  moreover have "coprime (5 :: int) 3" by code_simp
  ultimately have "(5 :: int) dvd 2 ^ k" by (simp add: coprime_dvd_mult_right_iff)
  moreover have "coprime (5 :: int) 2" by code_simp
  then have "coprime (5 :: int) (2 ^ k)" by simp
  ultimately have "is_unit (5 :: int)" by (metis coprime_absorb_left)
  then show False by simp
qed

lemma tempo_100_inexact: "\<not> binary32_exact (tempo_scale (audio_set_tempo 100 audio_ready))"
proof -
  have "tempo_scale (audio_set_tempo 100 audio_ready) = 3 / 5" by code_simp
  then show ?thesis by (simp only: not_binary32_three_fifths not_False_eq_True)
qed

lemma playback_values_exact:
  assumes at: "playing_at ns scale i pos s"
    and wl: "\<forall>n\<in>set ns. whole_length scale m n"
    and k: "unat k \<le> m"
    and pos: "pos < note_ticks scale (ns ! i)"
  shows "binary32_exact (note_length s * 1)"
    and "binary32_exact (real (unat (note_position s + k)))"
    and "note_length s * 1 \<le> real (unat (note_position s + k))
         \<Longrightarrow> binary32_exact (real (unat (note_position s + k)) - note_length s * 1)"
    and "j < length ns \<Longrightarrow> binary32_exact (snd (ns ! j) * scale)"
proof -
  define l where "l = note_ticks scale (ns ! i)"
  from at have f: "i < length ns" "note_length s = snd (ns ! i) * scale"
    "unat (note_position s) = pos"
    by (simp_all add: playing_at_def)
  note w = whole_lengthD [OF wl f(1), folded l_def]
  have nl: "note_length s = real l" using f(2) w(1) by simp
  have l24: "l < 2 ^ 24" using w(4) by simp
  have "unat (note_position s) + unat k < 2 ^ LENGTH(32)"
    using f(3) pos k w(2,3) by (simp add: l_def)
  then have "unat (note_position s + k) = unat (note_position s) + unat k"
    by (rule unat_add_lem [THEN iffD1])
  then have pk: "unat (note_position s + k) = pos + unat k"
    using f(3) by simp
  define a where "a = pos + unat k"
  have rk: "real (unat (note_position s + k)) = real a"
    by (simp only: pk a_def)
  have "a < 2 * l" using pos k w(2) by (simp add: a_def l_def)
  with w(4) have a24: "a < 2 ^ 24" by simp
  show "binary32_exact (note_length s * 1)"
    using binary32_exact_nat [OF l24] by (simp add: nl)
  show "binary32_exact (real (unat (note_position s + k)))"
    using binary32_exact_nat [OF a24] by (simp only: rk)
  {
    assume "note_length s * 1 \<le> real (unat (note_position s + k))"
    then have "real l \<le> real a" using nl rk by simp
    then have le: "l \<le> a" by simp
    have "a - l < 2 ^ 24" using a24 by simp
    from binary32_exact_nat [OF this]
    have "binary32_exact (real a - real l)" using le by (simp add: of_nat_diff)
    then show "binary32_exact (real (unat (note_position s + k)) - note_length s * 1)"
      using nl rk by simp
  }
  {
    assume j: "j < length ns"
    note v = whole_lengthD [OF wl j]
    have "note_ticks scale (ns ! j) < 2 ^ 24" using v(4) by simp
    from binary32_exact_nat [OF this]
    show "binary32_exact (snd (ns ! j) * scale)" by (simp only: v(1))
  }
qed

text \<open>
  Claim C3, amended. Take a melody that does not repeat, in which no two consecutive
  notes have the same frequency (so no rest is inserted), at a tempo whose scale
  \<open>60 / tempo\<close> is a binary32 value (the tempos 60, 120 or 240, say, and not 100), every
  note length \<open>duration * (60 / tempo)\<close> being a whole number of position units below
  \<open>2 ^ 23\<close>, played with \<^verbatim>\<open>end = 1\<close> and ticks whose steps do not exceed \<open>m\<close>, where
  \<open>m > 0\<close> is at most the shortest note. Then playback completes as soon as the ticks
  fed add up to the nominal length \<open>\<Sum> duration * (60 / tempo)\<close>, and the time elapsed at
  the completion signal is at least the nominal length and exceeds it by less than \<open>m\<close>:
  the overshoot of each note is carried into the next, and no error builds up.
\<close>

theorem duration_conserved:
  assumes "audio_initialized s0" "audio_config_enable s0"
    and "ns \<noteq> []" "length ns < 2 ^ 16"
    and "distinct_neighbours ns"
    and "0 < m" "\<forall>n\<in>set ns. whole_length (tempo_scale s0) m n"
    and "\<forall>k\<in>set steps. unat k \<le> m"
    and "binary32_exact (tempo_scale s0)"
  shows "case elapsed p 1 steps (audio_play_melody p (Song ns) (of_nat (length ns)) False s0) of
           None \<Rightarrow> real (sum_list (map unat steps)) < nominal_length (tempo_scale s0) ns
         | Some t \<Rightarrow> nominal_length (tempo_scale s0) ns \<le> real t
                     \<and> real t < nominal_length (tempo_scale s0) ns + real m"
proof -
  let ?s = "audio_play_melody p (Song ns) (of_nat (length ns)) False s0"
  have at: "playing_at ns (tempo_scale s0) 0 0 ?s"
    using assms(1,2,3) by (rule play_melody_starts)
  have "0 < length ns" using assms(3) by simp
  from whole_lengthD(2) [OF assms(7) this] assms(6)
  have pos: "0 < note_ticks (tempo_scale s0) (ns ! 0)" by simp
  note b = elapsed_bounds [OF assms(4,5,7,8) at pos, of p]
  note n = nominal_whole [OF assms(7)]
  show ?thesis
  proof (cases "elapsed p 1 steps ?s")
    case None
    with b have "sum_list (map unat steps) < total_ticks (tempo_scale s0) ns" by simp
    then show ?thesis using None by (simp add: n)
  next
    case (Some t)
    with b have "total_ticks (tempo_scale s0) ns \<le> t" "t < total_ticks (tempo_scale s0) ns + m"
      by simp_all
    then have "real (total_ticks (tempo_scale s0) ns) \<le> real t"
      "real t < real (total_ticks (tempo_scale s0) ns) + real m"
      by linarith+
    then show ?thesis using Some by (simp add: n)
  qed
qed

lemma advance_all_Cons:
  "advance_all p e (k # ks) s = advance_all p e ks (snd (audio_advance_state p k e s))"
  by (simp add: advance_all_def)

lemma elapsed_first_stop:
  "n < length ks \<Longrightarrow> \<forall>j<n. playing_melody (advance_all p e (take (Suc j) ks) s)
   \<Longrightarrow> \<not> playing_melody (advance_all p e (take (Suc n) ks) s)
   \<Longrightarrow> elapsed p e ks s = Some (sum_list (map unat (take (Suc n) ks)))"
proof (induction ks arbitrary: n s)
  case Nil
  then show ?case by (simp add: elapsed.simps)
next
  case (Cons k ks)
  show ?case
  proof (cases n)
    case 0
    with Cons.prems(3) show ?thesis by (simp add: elapsed.simps advance_all_def Let_def)
  next
    case (Suc n')
    with Cons.prems(2) have "playing_melody (advance_all p e (take (Suc 0) (k # ks)) s)"
      by blast
    then have pm: "playing_melody (snd (audio_advance_state p k e s))"
      by (simp add: advance_all_def)
    have "\<forall>j<n'. playing_melody
        (advance_all p e (take (Suc j) ks) (snd (audio_advance_state p k e s)))"
    proof (intro allI impI)
      fix j assume "j < n'"
      then have "Suc j < n" using Suc by simp
      with Cons.prems(2) have "playing_melody (advance_all p e (take (Suc (Suc j)) (k # ks)) s)"
        by blast
      then show "playing_melody
          (advance_all p e (take (Suc j) ks) (snd (audio_advance_state p k e s)))"
        by (simp add: advance_all_Cons)
    qed
    moreover have "\<not> playing_melody
        (advance_all p e (take (Suc n') ks) (snd (audio_advance_state p k e s)))"
      using Cons.prems(3) Suc by (simp add: advance_all_Cons)
    moreover have "n' < length ks" using Cons.prems(1) Suc by simp
    ultimately have "elapsed p e ks (snd (audio_advance_state p k e s))
        = Some (sum_list (map unat (take (Suc n') ks)))"
      by (intro Cons.IH)
    then show ?thesis using pm Suc by (simp add: elapsed.simps Let_def)
  qed
qed

lemma elapsed_never_stops:
  "\<forall>j<length ks. playing_melody (advance_all p e (take (Suc j) ks) s)
   \<Longrightarrow> elapsed p e ks s = None"
proof (induction ks arbitrary: s)
  case Nil
  then show ?case by (simp add: elapsed.simps)
next
  case (Cons k ks)
  from Cons.prems have "playing_melody (advance_all p e (take (Suc 0) (k # ks)) s)"
    by (metis length_Cons zero_less_Suc)
  then have pm: "playing_melody (snd (audio_advance_state p k e s))"
    by (simp add: advance_all_def)
  have "\<forall>j<length ks. playing_melody
      (advance_all p e (take (Suc j) ks) (snd (audio_advance_state p k e s)))"
  proof (intro allI impI)
    fix j assume "j < length ks"
    then have "Suc j < length (k # ks)" by simp
    with Cons.prems have "playing_melody (advance_all p e (take (Suc (Suc j)) (k # ks)) s)"
      by blast
    then show "playing_melody
        (advance_all p e (take (Suc j) ks) (snd (audio_advance_state p k e s)))"
      by (simp add: advance_all_Cons)
  qed
  then have "elapsed p e ks (snd (audio_advance_state p k e s)) = None" by (rule Cons.IH)
  then show ?case using pm by (simp add: elapsed.simps Let_def)
qed

lemma three_notes_elapsed: "elapsed demo_platform 1 [1, 1, 1, 1, 1, 1, 1] three_notes = Some 6"
proof -
  have "list_all (\<lambda>j. playing_melody
      (advance_all demo_platform 1 (take (Suc j) [1, 1, 1, 1, 1, 1, 1]) three_notes)) [0..<5]"
    by code_simp
  then have "\<forall>j<5. playing_melody
      (advance_all demo_platform 1 (take (Suc j) [1, 1, 1, 1, 1, 1, 1]) three_notes)"
    by (simp add: list_all_iff)
  moreover have "\<not> playing_melody
      (advance_all demo_platform 1 (take (Suc 5) [1, 1, 1, 1, 1, 1, 1]) three_notes)"
    by code_simp
  ultimately have "elapsed demo_platform 1 [1, 1, 1, 1, 1, 1, 1] three_notes
      = Some (sum_list (map unat (take (Suc 5) [1, 1, 1, 1, 1, 1, 1 :: 32 word])))"
    by (intro elapsed_first_stop) simp_all
  then show ?thesis by simp
qed

lemma three_equal_elapsed: "elapsed demo_platform 1 [1, 1, 1, 1, 1, 1] three_equal = Some 5"
proof -
  have "list_all (\<lambda>j. playing_melody
      (advance_all demo_platform 1 (take (Suc j) [1, 1, 1, 1, 1, 1]) three_equal)) [0..<4]"
    by code_simp
  then have "\<forall>j<4. playing_melody
      (advance_all demo_platform 1 (take (Suc j) [1, 1, 1, 1, 1, 1]) three_equal)"
    by (simp add: list_all_iff)
  moreover have "\<not> playing_melody
      (advance_all demo_platform 1 (take (Suc 4) [1, 1, 1, 1, 1, 1]) three_equal)"
    by code_simp
  ultimately have "elapsed demo_platform 1 [1, 1, 1, 1, 1, 1] three_equal
      = Some (sum_list (map unat (take (Suc 4) [1, 1, 1, 1, 1, 1 :: 32 word])))"
    by (intro elapsed_first_stop) simp_all
  then show ?thesis by simp
qed

lemma three_short_elapsed: "elapsed demo_platform 1 [4, 4, 4, 4] three_short = Some 12"
proof -
  have "list_all (\<lambda>j. playing_melody
      (advance_all demo_platform 1 (take (Suc j) [4, 4, 4, 4]) three_short)) [0..<2]"
    by code_simp
  then have "\<forall>j<2. playing_melody
      (advance_all demo_platform 1 (take (Suc j) [4, 4, 4, 4]) three_short)"
    by (simp add: list_all_iff)
  moreover have "\<not> playing_melody
      (advance_all demo_platform 1 (take (Suc 2) [4, 4, 4, 4]) three_short)"
    by code_simp
  ultimately have "elapsed demo_platform 1 [4, 4, 4, 4] three_short
      = Some (sum_list (map unat (take (Suc 2) [4, 4, 4, 4 :: 32 word])))"
    by (intro elapsed_first_stop) simp_all
  then show ?thesis by simp
qed

lemma two_notes_elapsed: "elapsed demo_platform 1 [1, 2, 2, 1] two_notes = Some 5"
proof -
  have "list_all (\<lambda>j. playing_melody
      (advance_all demo_platform 1 (take (Suc j) [1, 2, 2, 1]) two_notes)) [0..<2]"
    by code_simp
  then have "\<forall>j<2. playing_melody
      (advance_all demo_platform 1 (take (Suc j) [1, 2, 2, 1]) two_notes)"
    by (simp add: list_all_iff)
  moreover have "\<not> playing_melody
      (advance_all demo_platform 1 (take (Suc 2) [1, 2, 2, 1]) two_notes)"
    by code_simp
  ultimately have "elapsed demo_platform 1 [1, 2, 2, 1] two_notes
      = Some (sum_list (map unat (take (Suc 2) [1, 2, 2, 1 :: 32 word])))"
    by (intro elapsed_first_stop) simp_all
  then show ?thesis by simp
qed

lemma two_notes_unfinished: "elapsed demo_platform 1 [1, 2] two_notes = None"
proof -
  have "list_all (\<lambda>j. playing_melody
      (advance_all demo_platform 1 (take (Suc j) [1, 2]) two_notes)) [0..<2]"
    by code_simp
  then have "\<forall>j<length [1, 2 :: 32 word]. playing_melody
      (advance_all demo_platform 1 (take (Suc j) [1, 2]) two_notes)"
    by (simp add: list_all_iff)
  then show ?thesis by (rule elapsed_never_stops)
qed

theorem duration_conserved_witness:
  "binary32_exact (tempo_scale audio_ready)
   \<and> elapsed demo_platform 1 [1, 2, 2, 1] two_notes = Some 5
   \<and> nominal_length (tempo_scale audio_ready) [(440, 4), (880, 6)] = 5
   \<and> elapsed demo_platform 1 [1, 2] two_notes = None"
proof -
  have h: "audio_initialized audio_ready" "audio_config_enable audio_ready"
    "[(440, 4), (880, 6)] \<noteq> ([] :: musical_note list)"
    "length [(440, 4), (880, 6) :: musical_note] < 2 ^ 16"
    "distinct_neighbours [(440, 4), (880, 6)]"
    by code_simp+
  have ts: "tempo_scale audio_ready = 1 / 2" by code_simp
  have m: "0 < (2 :: nat)" by simp
  have wl: "\<forall>n\<in>set [(440, 4), (880, 6)]. whole_length (tempo_scale audio_ready) 2 n"
    by (simp add: ts whole_length_def note_ticks_def)
  have k1: "\<forall>k\<in>set [1, 2, 2, 1 :: 32 word]. unat k \<le> 2"
    and k2: "\<forall>k\<in>set [1, 2 :: 32 word]. unat k \<le> 2" by simp_all
  have b32: "binary32_exact (tempo_scale audio_ready)" by code_simp
  have n: "nominal_length (tempo_scale audio_ready) [(440, 4), (880, 6)] = 5"
    by (simp add: ts nominal_length_def)
  note a = duration_conserved [OF h m wl k1 b32, of demo_platform]
  note b = duration_conserved [OF h m wl k2 b32, of demo_platform]
  from a b n b32 two_notes_elapsed [unfolded two_notes_def]
    two_notes_unfinished [unfolded two_notes_def]
  show ?thesis by (simp add: two_notes_def)
qed

text \<open>
  Claim C3, as stated, fails in three ways, each with ticks of one size and \<^verbatim>\<open>end = 1\<close>.
  Three notes of length 1.5 (duration 6 at 240 beats per minute) take two unit ticks
  each, 6 in all against a nominal 4.5: the carried overshoot is stored in the integer
  \<^verbatim>\<open>note_position\<close> and loses its fraction. Three equal notes of length 1 take
  5 unit ticks against a nominal 3: two rests of length 1 are inserted. Three different
  notes of length 1 under ticks of step 4 take three ticks, 12 units against a nominal 3:
  a tick ends one note at most.
\<close>

theorem duration_not_conserved:
  "elapsed demo_platform 1 [1, 1, 1, 1, 1, 1, 1] three_notes = Some 6
   \<and> nominal_length (tempo_scale fast_ready) [(440, 6), (880, 6), (660, 6)] = 9 / 2
   \<and> elapsed demo_platform 1 [1, 1, 1, 1, 1, 1] three_equal = Some 5
   \<and> nominal_length (tempo_scale audio_ready) [(440, 2), (440, 2), (440, 2)] = 3
   \<and> elapsed demo_platform 1 [4, 4, 4, 4] three_short = Some 12
   \<and> nominal_length (tempo_scale audio_ready) [(440, 2), (880, 2), (660, 2)] = 3
   \<and> \<not> within_one_tick (elapsed demo_platform 1 [1, 1, 1, 1, 1, 1, 1] three_notes)
          (nominal_length (tempo_scale fast_ready) [(440, 6), (880, 6), (660, 6)]) 1
   \<and> \<not> within_one_tick (elapsed demo_platform 1 [1, 1, 1, 1, 1, 1] three_equal)
          (nominal_length (tempo_scale audio_ready) [(440, 2), (440, 2), (440, 2)]) 1
   \<and> \<not> within_one_tick (elapsed demo_platform 1 [4, 4, 4, 4] three_short)
          (nominal_length (tempo_scale audio_ready) [(440, 2), (880, 2), (660, 2)]) 4"
proof -
  have "nominal_length (tempo_scale fast_ready) [(440, 6), (880, 6), (660, 6)] = 9 / 2"
    "nominal_length (tempo_scale audio_ready) [(440, 2), (440, 2), (440, 2)] = 3"
    "nominal_length (tempo_scale audio_ready) [(440, 2), (880, 2), (660, 2)] = 3"
    by code_simp+
  then show ?thesis
    by (simp add: three_notes_elapsed three_equal_elapsed three_short_elapsed
        within_one_tick_def)
qed

subsection \<open>The tone of an inserted rest\<close>


lemma clean_stack_updates [simp]:
  "clean_stack st (s\<lparr>playing_melody := x2\<rparr>) = clean_stack st s"
  "clean_stack st (s\<lparr>state_changed := x4\<rparr>) = clean_stack st s"
  "clean_stack st (s\<lparr>notes_pointer := x5\<rparr>) = clean_stack st s"
  "clean_stack st (s\<lparr>notes_count := x6\<rparr>) = clean_stack st s"
  "clean_stack st (s\<lparr>notes_repeat := x7\<rparr>) = clean_stack st s"
  "clean_stack st (s\<lparr>note_length := x8\<rparr>) = clean_stack st s"
  "clean_stack st (s\<lparr>note_tempo := x9\<rparr>) = clean_stack st s"
  "clean_stack st (s\<lparr>current_note := x10\<rparr>) = clean_stack st s"
  "clean_stack st (s\<lparr>note_position := x11\<rparr>) = clean_stack st s"
  "clean_stack st (s\<lparr>note_resting := x12\<rparr>) = clean_stack st s"
  "clean_stack st (s\<lparr>tone_multiplexing_rate := x13\<rparr>) = clean_stack st s"
  "clean_stack st (s\<lparr>tone_multiplexing_index_shift := x14\<rparr>) = clean_stack st s"
  "clean_stack st (s\<lparr>voices_timer := x15\<rparr>) = clean_stack st s"
  "clean_stack st (s\<lparr>click := x16\<rparr>) = clean_stack st s"
  "clean_stack st (s\<lparr>audio_initialized := x17\<rparr>) = clean_stack st s"
  "clean_stack st (s\<lparr>audio_config_enable := x18\<rparr>) = clean_stack st s"
  "clean_stack st (s\<lparr>calls := x19\<rparr>) = clean_stack st s"
  by (simp_all add: clean_stack_def)






text \<open>
  \<open>rest_inv\<close> holds when a melody of positive frequencies is started in silence, and
  every tick keeps it, whatever its step, the \<^verbatim>\<open>end\<close> fraction, the note lengths and the
  position: both outcomes of the comparison of the position with the note length keep
  it.
\<close>

lemma rest_inv_updates [simp]:
  "rest_inv ns n0 (s\<lparr>note_position := x1\<rparr>) = rest_inv ns n0 s"
  "rest_inv ns n0 (s\<lparr>note_length := x2\<rparr>) = rest_inv ns n0 s"
  "rest_inv ns n0 (s\<lparr>state_changed := x3\<rparr>) = rest_inv ns n0 s"
  "rest_inv ns n0 (s\<lparr>tone_multiplexing_index_shift := x4\<rparr>) = rest_inv ns n0 s"
  "rest_inv ns n0 (s\<lparr>voices_timer := x5\<rparr>) = rest_inv ns n0 s"
  by (simp_all add: rest_inv_def)

lemma rest_inv_effects [simp]:
  "rest_inv ns n0 (snd (advance_effects p g s)) = rest_inv ns n0 s"
  by (simp add: snd_advance_effects)











end
